theory Spec2Isabelle
  imports Main "HOL-Library.Multiset" "HOL-Library.Product_Lexorder"
    "HOL-Library.Code_Target_Numeral"
begin

section \<open>Python values\<close>

text \<open>
  The scheduler receives rows of the \<open>appointments\<close> table as dictionaries
  \<open>Dict[str, Any]\<close>.  A value is \<open>None\<close>, an integer, a string or a
  \<open>datetime\<close> object.  Strings are lists of code points below 256.

  A \<open>datetime\<close> is its wall-clock reading, counted in microseconds from
  \<open>datetime.min\<close> (0001-01-01T00:00:00); an offset-aware one also carries its UTC
  offset in microseconds.
\<close>

datatype datetime = Naive nat | Aware nat int

datatype pyval = VNone | VInt int | VStr string | VDatetime datetime

type_synonym pydict = "string \<rightharpoonup> pyval"

datatype error = KeyError | AttributeError | TypeError

fun truthy :: "pyval \<Rightarrow> bool" where
  "truthy VNone = False"
| "truthy (VInt n) = (n \<noteq> 0)"
| "truthy (VStr s) = (s \<noteq> [])"
| "truthy (VDatetime d) = True"

definition py_or :: "pyval \<Rightarrow> pyval \<Rightarrow> pyval" where
  "py_or x y = (if truthy x then x else y)"

definition dict_get :: "pydict \<Rightarrow> string \<Rightarrow> pyval" where
  "dict_get a k = (case a k of None \<Rightarrow> VNone | Some v \<Rightarrow> v)"

subsection \<open>\<open>str.lower\<close> and \<open>str.strip\<close>\<close>

definition py_lower_char :: "char \<Rightarrow> char" where
  "py_lower_char c =
     (let n = (of_char c :: nat)
      in if (65 \<le> n \<and> n \<le> 90) \<or> (192 \<le> n \<and> n \<le> 222 \<and> n \<noteq> 215)
         then char_of (n + 32) else c)"

definition py_lower :: "string \<Rightarrow> string" where
  "py_lower s = map py_lower_char s"

definition py_isspace :: "char \<Rightarrow> bool" where
  "py_isspace c =
     (let n = (of_char c :: nat)
      in (9 \<le> n \<and> n \<le> 13) \<or> (28 \<le> n \<and> n \<le> 32) \<or> n = 133 \<or> n = 160)"

definition py_strip :: "string \<Rightarrow> string" where
  "py_strip s = rev (dropWhile py_isspace (rev (dropWhile py_isspace s)))"

text \<open>\<open>v.lower().strip()\<close>: only a string has the two methods.\<close>

fun lower_strip :: "pyval \<Rightarrow> error + string" where
  "lower_strip (VStr s) = Inr (py_strip (py_lower s))"
| "lower_strip v = Inl AttributeError"

text \<open>\<open>v.strip()\<close>.\<close>

fun strip_val :: "pyval \<Rightarrow> error + string" where
  "strip_val (VStr s) = Inr (py_strip s)"
| "strip_val v = Inl AttributeError"

section \<open>queue.py: the priority classifier\<close>

definition PRIORITY_ORDER :: "string list" where
  "PRIORITY_ORDER = [''critical'', ''emergency'', ''accident'', ''normal'']"

text \<open>The loop \<open>for i, x in enumerate(PRIORITY_ORDER)\<close> with its fall-through \<open>return 3\<close>.\<close>

fun rank_loop :: "nat \<Rightarrow> string list \<Rightarrow> string \<Rightarrow> nat" where
  "rank_loop i [] p = 3"
| "rank_loop i (x # xs) p = (if x = p then i else rank_loop (Suc i) xs p)"

text \<open>
  \<open>priority_rank(p: str)\<close>.  The argument is a string or \<open>None\<close>
  (\<open>p or "normal"\<close> replaces \<open>None\<close> and the empty string).
\<close>

definition priority_rank :: "string option \<Rightarrow> nat" where
  "priority_rank p =
     (let p' = py_strip (py_lower
                 (case p of None \<Rightarrow> ''normal''
                  | Some s \<Rightarrow> if s = [] then ''normal'' else s))
      in rank_loop 0 PRIORITY_ORDER p')"

section \<open>The \<open>datetime\<close> library\<close>

definition datetime_min :: datetime where
  "datetime_min = Naive 0"

fun aware :: "datetime \<Rightarrow> bool" where
  "aware (Naive n) = False"
| "aware (Aware n off) = True"

text \<open>The point on the time line: the wall-clock reading less the UTC offset.\<close>

fun instant :: "datetime \<Rightarrow> int" where
  "instant (Naive n) = int n"
| "instant (Aware n off) = int n - off"

text \<open>
  \<open>a == b\<close> never raises: an offset-naive and an offset-aware value are unequal.
  \<open>a < b\<close> raises \<open>TypeError\<close> ("can't compare offset-naive and offset-aware
  datetimes") for such a pair.
\<close>

definition dt_eq :: "datetime \<Rightarrow> datetime \<Rightarrow> bool" where
  "dt_eq a b = (aware a = aware b \<and> instant a = instant b)"

definition dt_lt :: "datetime \<Rightarrow> datetime \<Rightarrow> error + bool" where
  "dt_lt a b = (if aware a \<noteq> aware b then Inl TypeError else Inr (instant a < instant b))"

subsection \<open>\<open>datetime.isoformat\<close>\<close>

definition digit_char :: "nat \<Rightarrow> char" where
  "digit_char d = char_of (48 + d)"

fun show_nat :: "nat \<Rightarrow> string" where
  "show_nat n = (if n < 10 then [digit_char n] else show_nat (n div 10) @ [digit_char (n mod 10)])"

declare show_nat.simps [simp del]

text \<open>\<open>"%0wd" % n\<close>.\<close>

definition pad :: "nat \<Rightarrow> nat \<Rightarrow> string" where
  "pad w n = replicate (w - length (show_nat n)) (CHR ''0'') @ show_nat n"

definition DAYS_IN_MONTH :: "nat list" where
  "DAYS_IN_MONTH = [0, 31, 28, 31, 30, 31, 30, 31, 31, 30, 31, 30, 31]"

definition DAYS_BEFORE_MONTH :: "nat list" where
  "DAYS_BEFORE_MONTH = [0, 0, 31, 59, 90, 120, 151, 181, 212, 243, 273, 304, 334]"

text \<open>
  The library's \<open>_ord2ymd\<close>, on the number of whole days since 0001-01-01
  (the proleptic Gregorian ordinal less one).
\<close>

definition ord2ymd :: "nat \<Rightarrow> nat \<times> nat \<times> nat" where
  "ord2ymd n0 =
     (let n400 = n0 div 146097; na = n0 mod 146097;
          n100 = na div 36524; nb = na mod 36524;
          n4 = nb div 1461; nc = nb mod 1461;
          n1 = nc div 365; n = nc mod 365;
          year = n400 * 400 + 1 + n100 * 100 + n4 * 4 + n1
      in if n1 = 4 \<or> n100 = 4 then (year - 1, 12, 31)
         else
           let leapyear = (n1 = 3 \<and> (n4 \<noteq> 24 \<or> n100 = 3));
               month = (n + 50) div 32;
               preceding = DAYS_BEFORE_MONTH ! month + (if month > 2 \<and> leapyear then 1 else 0)
           in if preceding > n
              then let month' = month - 1;
                       preceding' = preceding -
                         (DAYS_IN_MONTH ! month' + (if month' = 2 \<and> leapyear then 1 else 0))
                   in (year, month', n - preceding' + 1)
              else (year, month, n - preceding + 1))"

definition US_PER_DAY :: nat where
  "US_PER_DAY = 86400000000"

text \<open>\<open>YYYY-MM-DDTHH:MM:SS\<close>, then \<open>.ffffff\<close> when the microseconds are not zero.\<close>

definition format_local :: "nat \<Rightarrow> string" where
  "format_local t =
     (let days = t div US_PER_DAY; r = t mod US_PER_DAY;
          secs = r div 1000000; us = r mod 1000000;
          hh = secs div 3600; mm = secs mod 3600 div 60; ss = secs mod 60
      in case ord2ymd days of (y, m, d) \<Rightarrow>
           pad 4 y @ ''-'' @ pad 2 m @ ''-'' @ pad 2 d @ ''T'' @
           pad 2 hh @ '':'' @ pad 2 mm @ '':'' @ pad 2 ss @
           (if us \<noteq> 0 then ''.'' @ pad 6 us else []))"

text \<open>The library's \<open>_format_offset\<close>: \<open>+HH:MM\<close>, then \<open>:SS\<close> and \<open>.ffffff\<close> when not zero.\<close>

definition format_offset :: "int \<Rightarrow> string" where
  "format_offset off =
     (let a = nat \<bar>off\<bar>;
          hh = a div 3600000000; r = a mod 3600000000;
          mm = r div 60000000; r' = r mod 60000000;
          ss = r' div 1000000; us = r' mod 1000000
      in (if off < 0 then ''-'' else ''+'') @ pad 2 hh @ '':'' @ pad 2 mm @
         (if r' \<noteq> 0
          then '':'' @ pad 2 ss @ (if us \<noteq> 0 then ''.'' @ pad 6 us else [])
          else []))"

fun isoformat :: "datetime \<Rightarrow> string" where
  "isoformat (Naive t) = format_local t"
| "isoformat (Aware t off) = format_local t @ format_offset off"

subsection \<open>A parser for \<open>datetime.fromisoformat\<close>\<close>

text \<open>
  The library function is not code of the repository.  The scheduler's functions below
  take the parser as a parameter \<open>fiso\<close>, and every general theorem holds for any
  parser.

  The closed theorems need a parser to run on.  \<open>iso_forms\<close> is the restriction of the
  library function to the fixed-width forms \<open>YYYY-MM-DD\<close>, \<open>YYYY-MM-DD?HH:MM\<close>,
  \<open>YYYY-MM-DD?HH:MM:SS\<close> and \<open>YYYY-MM-DD?HH:MM:SS.ffffff\<close> (\<open>?\<close> any one
  character), the last three with an optional \<open>+HH:MM\<close> or \<open>-HH:MM\<close> offset.  On a
  string of these forms it reads the fields as the library does: decimal digits, the
  library's range checks on year, month, day, hour, minute, second and offset, and the
  offset kept beside the local time.  It is narrower than the library: it answers
  \<open>None\<close> on every other string, also on further forms that some version of the library reads (an hour alone,
  the forms without separators, week dates, fractions of other lengths, a \<open>Z\<close> suffix,
  offsets written otherwise).  The closed theorems apply it only to strings of its
  forms and to \<open>01/02/2025T09:00\<close>, which no version of the library reads.
\<close>

definition is_digit :: "char \<Rightarrow> bool" where
  "is_digit c = (48 \<le> (of_char c :: nat) \<and> (of_char c :: nat) \<le> 57)"

definition parse_digits :: "string \<Rightarrow> nat option" where
  "parse_digits s =
     (if s \<noteq> [] \<and> list_all is_digit s
      then Some (foldl (\<lambda>acc c. 10 * acc + (of_char c - 48)) 0 s) else None)"

definition is_leap :: "nat \<Rightarrow> bool" where
  "is_leap y = (y mod 4 = 0 \<and> (y mod 100 \<noteq> 0 \<or> y mod 400 = 0))"

definition days_in_month :: "nat \<Rightarrow> nat \<Rightarrow> nat" where
  "days_in_month y m = (if m = 2 \<and> is_leap y then 29 else DAYS_IN_MONTH ! m)"

text \<open>The library's \<open>_ymd2ord\<close>, less one.\<close>

definition ymd2days :: "nat \<Rightarrow> nat \<Rightarrow> nat \<Rightarrow> nat" where
  "ymd2days y m d =
     (let y' = y - 1
      in y' * 365 + y' div 4 - y' div 100 + y' div 400
         + DAYS_BEFORE_MONTH ! m + (if m > 2 \<and> is_leap y then 1 else 0) + d - 1)"

definition parse_date :: "string \<Rightarrow> nat option" where
  "parse_date s =
     (case (parse_digits (take 4 s), parse_digits (take 2 (drop 5 s)),
            parse_digits (take 2 (drop 8 s))) of
        (Some y, Some m, Some d) \<Rightarrow>
          if length s = 10 \<and> s ! 4 = CHR ''-'' \<and> s ! 7 = CHR ''-'' \<and>
             1 \<le> y \<and> 1 \<le> m \<and> m \<le> 12 \<and> 1 \<le> d \<and> d \<le> days_in_month y m
          then Some (ymd2days y m d) else None
      | _ \<Rightarrow> None)"

text \<open>\<open>HH:MM\<close>, for the time of day and for the offset.\<close>

definition parse_hh_mm :: "string \<Rightarrow> nat option" where
  "parse_hh_mm s =
     (case (parse_digits (take 2 s), parse_digits (take 2 (drop 3 s))) of
        (Some h, Some m) \<Rightarrow>
          if length s = 5 \<and> s ! 2 = CHR '':'' \<and> h < 24 \<and> m < 60
          then Some ((h * 60 + m) * 60000000) else None
      | _ \<Rightarrow> None)"

text \<open>\<open>HH:MM\<close>, \<open>HH:MM:SS\<close> or \<open>HH:MM:SS.ffffff\<close>, in microseconds.\<close>

definition parse_clock :: "string \<Rightarrow> nat option" where
  "parse_clock s =
     (case parse_hh_mm (take 5 s) of
        None \<Rightarrow> None
      | Some hm \<Rightarrow>
          if length s = 5 then Some hm
          else if s ! 5 \<noteq> CHR '':'' then None
          else (case parse_digits (take 2 (drop 6 s)) of
                  None \<Rightarrow> None
                | Some sec \<Rightarrow>
                    if 60 \<le> sec then None
                    else if length s = 8 then Some (hm + sec * 1000000)
                    else if length s = 15 \<and> s ! 8 = CHR ''.''
                    then (case parse_digits (drop 9 s) of
                            None \<Rightarrow> None
                          | Some us \<Rightarrow> Some (hm + sec * 1000000 + us))
                    else None))"

definition is_sign :: "char \<Rightarrow> bool" where
  "is_sign c = (c = CHR ''+'' \<or> c = CHR ''-'')"

definition iso_forms :: "string \<Rightarrow> datetime option" where
  "iso_forms s =
     (case parse_date (take 10 s) of
        None \<Rightarrow> None
      | Some days \<Rightarrow>
          if length s = 10 then Some (Naive (days * US_PER_DAY))
          else
            let t = drop 11 s;
                clock = takeWhile (\<lambda>c. \<not> is_sign c) t;
                tz = dropWhile (\<lambda>c. \<not> is_sign c) t
            in (case parse_clock clock of
                  None \<Rightarrow> None
                | Some us \<Rightarrow>
                    if tz = [] then Some (Naive (days * US_PER_DAY + us))
                    else (case parse_hh_mm (tl tz) of
                            None \<Rightarrow> None
                          | Some off \<Rightarrow>
                              Some (Aware (days * US_PER_DAY + us)
                                      (if hd tz = CHR ''-'' then - int off else int off)))))"

section \<open>linked_list.py: the record store\<close>

text \<open>
  \<open>PatientNode\<close>: the appointment fields and the \<open>next\<close> reference.  The list owns
  its nodes, so the reference is the rest of the chain.
\<close>

datatype PatientNode =
  PatientNode (appointment_id: pyval) (name: pyval) (priority: string)
    (appointment_date: pyval) (appointment_time: pyval) (created_at: pyval)
    (nxt: "PatientNode option")

text \<open>\<open>PatientLinkedList\<close>: the \<open>head\<close> reference.\<close>

type_synonym PatientLinkedList = "PatientNode option"

definition empty_list :: PatientLinkedList where
  "empty_list = None"

text \<open>
  The node built by \<open>insert_from_appointment_dict\<close>: \<open>a["id"]\<close> raises
  \<open>KeyError\<close> when the key is missing, and \<open>.lower()\<close> raises
  \<open>AttributeError\<close> when the priority is a non-empty value that is not a string.
\<close>

definition make_node :: "pydict \<Rightarrow> error + PatientNode" where
  "make_node a =
     (case a ''id'' of
        None \<Rightarrow> Inl KeyError
      | Some i \<Rightarrow>
          (case lower_strip (py_or (dict_get a ''priority'') (VStr ''normal'')) of
             Inl e \<Rightarrow> Inl e
           | Inr p \<Rightarrow>
               Inr (PatientNode i
                      (py_or (py_or (dict_get a ''name'') (dict_get a ''patient_name'')) (VStr []))
                      p
                      (py_or (dict_get a ''appointment_date'') (VStr []))
                      (py_or (dict_get a ''appointment_time'') (VStr []))
                      (dict_get a ''created_at'')
                      None)))"

text \<open>The walk \<open>while current.next is not None\<close>, then \<open>current.next = node\<close>.\<close>

fun append_node :: "PatientNode \<Rightarrow> PatientNode \<Rightarrow> PatientNode" where
  "append_node (PatientNode i n p d t c None) node = PatientNode i n p d t c (Some node)"
| "append_node (PatientNode i n p d t c (Some m)) node =
     PatientNode i n p d t c (Some (append_node m node))"

definition insert_from_appointment_dict ::
    "PatientLinkedList \<Rightarrow> pydict \<Rightarrow> error + PatientLinkedList" where
  "insert_from_appointment_dict head a =
     (case make_node a of
        Inl e \<Rightarrow> Inl e
      | Inr node \<Rightarrow>
          (case head of
             None \<Rightarrow> Inr (Some node)
           | Some h \<Rightarrow> Inr (Some (append_node h node))))"

fun nodes_from :: "PatientNode \<Rightarrow> PatientNode list" where
  "nodes_from (PatientNode i n p d t c None) = [PatientNode i n p d t c None]"
| "nodes_from (PatientNode i n p d t c (Some m)) =
     PatientNode i n p d t c (Some m) # nodes_from m"

definition ll_to_list :: "PatientLinkedList \<Rightarrow> PatientNode list" where
  "ll_to_list head = (case head of None \<Rightarrow> [] | Some h \<Rightarrow> nodes_from h)"

text \<open>
  \<open>remove_by_id\<close>, from a node on: whether a node was unlinked, and the chain that is
  left.  An identifier that is not an integer is unequal to the integer asked for.
\<close>

fun remove_from :: "PatientNode \<Rightarrow> int \<Rightarrow> bool \<times> PatientNode option" where
  "remove_from (PatientNode i n p d t c None) k =
     (if i = VInt k then (True, None) else (False, Some (PatientNode i n p d t c None)))"
| "remove_from (PatientNode i n p d t c (Some m)) k =
     (if i = VInt k then (True, Some m)
      else (case remove_from m k of (b, m') \<Rightarrow> (b, Some (PatientNode i n p d t c m'))))"

definition remove_by_id :: "PatientLinkedList \<Rightarrow> int \<Rightarrow> bool \<times> PatientLinkedList" where
  "remove_by_id head k = (case head of None \<Rightarrow> (False, None) | Some h \<Rightarrow> remove_from h k)"

section \<open>queue.py: the FIFO queue and the four-level priority queue\<close>

record QueueItem =
  appointment_id :: pyval
  name :: pyval
  priority :: string
  appointment_date :: pyval
  appointment_time :: pyval
  created_at :: datetime

text \<open>\<open>datetime\<close> objects are always true, so \<open>to_dict\<close> always formats.\<close>

definition to_dict :: "QueueItem \<Rightarrow> pydict" where
  "to_dict x =
     [''appointment_id'' \<mapsto> appointment_id x,
      ''name'' \<mapsto> name x,
      ''priority'' \<mapsto> VStr (priority x),
      ''appointment_date'' \<mapsto> appointment_date x,
      ''appointment_time'' \<mapsto> appointment_time x,
      ''created_at'' \<mapsto>
         (if truthy (VDatetime (created_at x)) then VStr (isoformat (created_at x)) else VNone)]"

type_synonym Queue = "QueueItem list"

definition q_is_empty :: "Queue \<Rightarrow> bool" where
  "q_is_empty q = (length q = 0)"

definition q_enqueue :: "Queue \<Rightarrow> QueueItem \<Rightarrow> Queue" where
  "q_enqueue q item = q @ [item]"

definition q_dequeue :: "Queue \<Rightarrow> QueueItem option \<times> Queue" where
  "q_dequeue q = (if q_is_empty q then (None, q) else (Some (hd q), tl q))"

definition q_peek :: "Queue \<Rightarrow> QueueItem option" where
  "q_peek q = (if q_is_empty q then None else Some (hd q))"

definition q_to_list :: "Queue \<Rightarrow> QueueItem list" where
  "q_to_list q = q"

type_synonym PriorityQueue = "Queue list"

definition PriorityQueue_init :: PriorityQueue where
  "PriorityQueue_init = map (\<lambda>_. []) PRIORITY_ORDER"

definition pq_is_empty :: "PriorityQueue \<Rightarrow> bool" where
  "pq_is_empty pq = list_all q_is_empty pq"

text \<open>\<open>_queue_for\<close> selects lane \<open>priority_rank(item.priority)\<close>, and \<open>enqueue\<close> appends there.\<close>

definition pq_enqueue :: "PriorityQueue \<Rightarrow> QueueItem \<Rightarrow> PriorityQueue" where
  "pq_enqueue pq item =
     (let r = priority_rank (Some (priority item)) in pq[r := q_enqueue (pq ! r) item])"

text \<open>The scan \<open>for q in self._queues\<close>, returning at the first lane that is not empty.\<close>

fun pq_dequeue :: "PriorityQueue \<Rightarrow> QueueItem option \<times> PriorityQueue" where
  "pq_dequeue [] = (None, [])"
| "pq_dequeue (q # qs) =
     (if \<not> q_is_empty q then (case q_dequeue q of (x, q') \<Rightarrow> (x, q' # qs))
      else (case pq_dequeue qs of (x, qs') \<Rightarrow> (x, q # qs')))"

fun pq_peek :: "PriorityQueue \<Rightarrow> QueueItem option" where
  "pq_peek [] = None"
| "pq_peek (q # qs) = (if \<not> q_is_empty q then q_peek q else pq_peek qs)"

definition pq_len :: "PriorityQueue \<Rightarrow> nat" where
  "pq_len pq = sum_list (map length pq)"

definition pq_to_list :: "PriorityQueue \<Rightarrow> QueueItem list" where
  "pq_to_list pq = foldl (\<lambda>out q. out @ q_to_list q) [] pq"

section \<open>scheduler.py: the scheduling engine\<close>

text \<open>\<open>_parse_created_at\<close>; \<open>fiso\<close> is \<open>datetime.fromisoformat\<close>, \<open>None\<close> for its \<open>ValueError\<close>.\<close>

fun parse_created_at :: "(string \<Rightarrow> datetime option) \<Rightarrow> pyval \<Rightarrow> datetime" where
  "parse_created_at fiso (VDatetime d) = d"
| "parse_created_at fiso (VStr s) =
     (if s \<noteq> [] then (case fiso s of Some d \<Rightarrow> d | None \<Rightarrow> datetime_min) else datetime_min)"
| "parse_created_at fiso v = datetime_min"

text \<open>
  \<open>_parse_appointment_datetime\<close>.  \<open>(date_str or "").strip()\<close> raises
  \<open>AttributeError\<close> on a true value that is not a string.
\<close>

definition parse_appointment_datetime ::
    "(string \<Rightarrow> datetime option) \<Rightarrow> pyval \<Rightarrow> pyval \<Rightarrow> datetime \<Rightarrow> error + datetime" where
  "parse_appointment_datetime fiso date_str time_str fallback =
     (case strip_val (py_or date_str (VStr [])) of
        Inl e \<Rightarrow> Inl e
      | Inr ds \<Rightarrow>
          (case strip_val (py_or time_str (VStr [])) of
             Inl e \<Rightarrow> Inl e
           | Inr ts \<Rightarrow>
               if ds = [] \<or> ts = [] then Inr fallback
               else (case fiso (ds @ ''T'' @ ts) of
                       Some d \<Rightarrow> Inr d
                     | None \<Rightarrow> Inr fallback)))"

definition build_queue_item ::
    "pyval \<Rightarrow> pyval \<Rightarrow> string \<Rightarrow> pyval \<Rightarrow> pyval \<Rightarrow> datetime \<Rightarrow> QueueItem" where
  "build_queue_item i n p d t c =
     \<lparr>appointment_id = i, name = n,
      priority = py_strip (py_lower (if p = [] then ''normal'' else p)),
      appointment_date = py_or d (VStr []),
      appointment_time = py_or t (VStr []),
      created_at = c\<rparr>"

text \<open>One turn of the loop that fills \<open>enriched_items\<close>.\<close>

definition enrich ::
    "(string \<Rightarrow> datetime option) \<Rightarrow> PatientNode
       \<Rightarrow> error + (nat \<times> datetime \<times> datetime \<times> PatientNode)" where
  "enrich fiso node =
     (let prio0 = py_strip (py_lower
                    (if PatientNode.priority node = [] then ''normal''
                     else PatientNode.priority node));
          prio = (if prio0 \<notin> set PRIORITY_ORDER then ''normal'' else prio0);
          created = parse_created_at fiso (PatientNode.created_at node)
      in case parse_appointment_datetime fiso (PatientNode.appointment_date node)
                (PatientNode.appointment_time node) created of
           Inl e \<Rightarrow> Inl e
         | Inr appt_dt \<Rightarrow> Inr (priority_rank (Some prio), appt_dt, created, node))"

fun enrich_all ::
    "(string \<Rightarrow> datetime option) \<Rightarrow> PatientNode list
       \<Rightarrow> error + (nat \<times> datetime \<times> datetime \<times> PatientNode) list" where
  "enrich_all fiso [] = Inr []"
| "enrich_all fiso (node # nodes) =
     (case enrich fiso node of
        Inl e \<Rightarrow> Inl e
      | Inr x \<Rightarrow> (case enrich_all fiso nodes of Inl e \<Rightarrow> Inl e | Inr xs \<Rightarrow> Inr (x # xs)))"

text \<open>
  The sort key \<open>(x[0], x[1], x[2])\<close> and the tuple comparison \<open>k1 < k2\<close>: the first
  position where the two tuples are unequal decides, with \<open><\<close> on that position.
\<close>

type_synonym sort_key = "nat \<times> datetime \<times> datetime"

definition key_of :: "nat \<times> datetime \<times> datetime \<times> 'a \<Rightarrow> sort_key" where
  "key_of x = (case x of (r, d, c, node) \<Rightarrow> (r, d, c))"

fun key_lt :: "sort_key \<Rightarrow> sort_key \<Rightarrow> error + bool" where
  "key_lt (r1, d1, c1) (r2, d2, c2) =
     (if r1 \<noteq> r2 then Inr (r1 < r2)
      else if \<not> dt_eq d1 d2 then dt_lt d1 d2
      else if \<not> dt_eq c1 c2 then dt_lt c1 c2
      else Inr False)"

text \<open>
  \<open>list.sort(key=...)\<close> is a stable comparison sort that asks only \<open><\<close> of the keys
  and lets an exception of a comparison escape.  It is modelled by the stable insertion
  sort.  A run that meets no exception yields the one stable arrangement
  (\<open>py_sort_sort_key\<close> below), and a run raises exactly when two keys of the list
  cannot be compared (\<open>py_sort_eq\<close> below), so neither outcome depends on the
  order in which the library compares.
\<close>

fun py_insort ::
    "nat \<times> datetime \<times> datetime \<times> 'a \<Rightarrow> (nat \<times> datetime \<times> datetime \<times> 'a) list
       \<Rightarrow> error + (nat \<times> datetime \<times> datetime \<times> 'a) list" where
  "py_insort x [] = Inr [x]"
| "py_insort x (y # ys) =
     (case key_lt (key_of y) (key_of x) of
        Inl e \<Rightarrow> Inl e
      | Inr b \<Rightarrow>
          if b then (case py_insort x ys of Inl e \<Rightarrow> Inl e | Inr zs \<Rightarrow> Inr (y # zs))
          else Inr (x # y # ys))"

fun py_sort ::
    "(nat \<times> datetime \<times> datetime \<times> 'a) list
       \<Rightarrow> error + (nat \<times> datetime \<times> datetime \<times> 'a) list" where
  "py_sort [] = Inr []"
| "py_sort (x # xs) = (case py_sort xs of Inl e \<Rightarrow> Inl e | Inr ys \<Rightarrow> py_insort x ys)"

text \<open>The loop \<open>for a in appointments: patient_list.insert_from_appointment_dict(a)\<close>.\<close>

fun insert_all :: "PatientLinkedList \<Rightarrow> pydict list \<Rightarrow> error + PatientLinkedList" where
  "insert_all head [] = Inr head"
| "insert_all head (a # as) =
     (case insert_from_appointment_dict head a of
        Inl e \<Rightarrow> Inl e
      | Inr head' \<Rightarrow> insert_all head' as)"

text \<open>The queue item of a node, as step 3 builds it.\<close>

definition item_of_node :: "(string \<Rightarrow> datetime option) \<Rightarrow> PatientNode \<Rightarrow> QueueItem" where
  "item_of_node fiso node =
     build_queue_item (PatientNode.appointment_id node) (PatientNode.name node)
       (PatientNode.priority node) (PatientNode.appointment_date node)
       (PatientNode.appointment_time node)
       (parse_created_at fiso (PatientNode.created_at node))"

definition load_queue ::
    "(string \<Rightarrow> datetime option) \<Rightarrow> (nat \<times> datetime \<times> datetime \<times> PatientNode) list
       \<Rightarrow> PriorityQueue" where
  "load_queue fiso enriched =
     foldl (\<lambda>pq x. case x of (r, d, c, node) \<Rightarrow> pq_enqueue pq (item_of_node fiso node))
       PriorityQueue_init enriched"

definition get_optimized_queue_list ::
    "(string \<Rightarrow> datetime option) \<Rightarrow> pydict list \<Rightarrow> error + pydict list" where
  "get_optimized_queue_list fiso appointments =
     (case insert_all empty_list appointments of
        Inl e \<Rightarrow> Inl e
      | Inr patient_list \<Rightarrow>
          (case enrich_all fiso (ll_to_list patient_list) of
             Inl e \<Rightarrow> Inl e
           | Inr enriched_items \<Rightarrow>
               (case py_sort enriched_items of
                  Inl e \<Rightarrow> Inl e
                | Inr sorted_items \<Rightarrow>
                    Inr (map to_dict (pq_to_list (load_queue fiso sorted_items))))))"

section \<open>Notions used in the statements\<close>

text \<open>A node without its \<open>next\<close> reference, and the records a list holds, in order.\<close>

fun detach :: "PatientNode \<Rightarrow> PatientNode" where
  "detach (PatientNode i n p d t c m) = PatientNode i n p d t c None"

definition records :: "PatientLinkedList \<Rightarrow> PatientNode list" where
  "records head = map detach (ll_to_list head)"

text \<open>The lane of a queue item.\<close>

definition item_rank :: "QueueItem \<Rightarrow> nat" where
  "item_rank x = priority_rank (Some (priority x))"

text \<open>The states of a priority queue: a fresh queue, and what enqueue and dequeue make of a state.\<close>

inductive pq_state :: "PriorityQueue \<Rightarrow> bool" where
  fresh: "pq_state PriorityQueue_init"
| enqueued: "pq_state pq \<Longrightarrow> pq_state (pq_enqueue pq x)"
| dequeued: "pq_state pq \<Longrightarrow> pq_state (snd (pq_dequeue pq))"

text \<open>Every item sits in the lane of its rank.\<close>

definition lanes_ok :: "PriorityQueue \<Rightarrow> bool" where
  "lanes_ok pq = (length pq = 4 \<and> (\<forall>r < 4. \<forall>x \<in> set (pq ! r). item_rank x = r))"

text \<open>
  Modelled from the spec: \<open>drainAll\<close>, which the source does not define: dequeue
  repeatedly until \<open>dequeue\<close> returns no item; the items in the order they came out.
\<close>

function drain :: "PriorityQueue \<Rightarrow> QueueItem list" where
  "drain pq = (case pq_dequeue pq of (None, pq') \<Rightarrow> [] | (Some x, pq') \<Rightarrow> x # drain pq')"
  by pat_completeness auto
termination
proof (relation "measure pq_len")
  show "wf (measure pq_len)" by simp
next
  fix pq :: PriorityQueue and o' pq' x
  assume d: "(o', pq') = pq_dequeue pq" and s: "o' = Some x"
  have "pq_dequeue qs = (Some y, qs') \<Longrightarrow> pq_len qs' < pq_len qs" for qs qs' y
  proof (induction qs arbitrary: qs')
    case Nil
    then show ?case by simp
  next
    case (Cons q qs)
    then show ?case
      by (cases q) (auto simp: pq_len_def q_is_empty_def q_dequeue_def split: prod.splits)
  qed
  from this [of pq x pq'] d s show "(pq', pq) \<in> measure pq_len" by simp
qed

declare drain.simps [simp del]

text \<open>The nodes of a snapshot, one after the other, stopping at the first error.\<close>

fun make_nodes :: "pydict list \<Rightarrow> error + PatientNode list" where
  "make_nodes [] = Inr []"
| "make_nodes (a # as) =
     (case make_node a of
        Inl e \<Rightarrow> Inl e
      | Inr node \<Rightarrow> (case make_nodes as of Inl e \<Rightarrow> Inl e | Inr nodes \<Rightarrow> Inr (node # nodes)))"

text \<open>The keyed records of a snapshot, in the order of the snapshot.\<close>

definition enriched ::
    "(string \<Rightarrow> datetime option) \<Rightarrow> pydict list
       \<Rightarrow> error + (nat \<times> datetime \<times> datetime \<times> PatientNode) list" where
  "enriched fiso s = (case make_nodes s of Inl e \<Rightarrow> Inl e | Inr nodes \<Rightarrow> enrich_all fiso nodes)"

definition node_of :: "nat \<times> datetime \<times> datetime \<times> PatientNode \<Rightarrow> PatientNode" where
  "node_of x = (case x of (r, d, c, node) \<Rightarrow> node)"

text \<open>The output record of a keyed record.\<close>

definition output_record ::
    "(string \<Rightarrow> datetime option) \<Rightarrow> nat \<times> datetime \<times> datetime \<times> PatientNode \<Rightarrow> pydict" where
  "output_record fiso x = to_dict (item_of_node fiso (node_of x))"

text \<open>A key with its two times as points on the time line, ordered lexicographically.\<close>

definition instant_key :: "nat \<times> datetime \<times> datetime \<times> 'a \<Rightarrow> nat \<times> int \<times> int" where
  "instant_key x = (case x of (r, d, c, node) \<Rightarrow> (r, instant d, instant c))"

text \<open>Two keys can be compared when \<open><\<close> on them does not raise.\<close>

definition comparable :: "sort_key \<Rightarrow> sort_key \<Rightarrow> bool" where
  "comparable a b = (case key_lt a b of Inl e \<Rightarrow> False | Inr t \<Rightarrow> True)"

definition all_comparable :: "(nat \<times> datetime \<times> datetime \<times> 'a) list \<Rightarrow> bool" where
  "all_comparable xs =
     list_all (\<lambda>x. list_all (\<lambda>y. comparable (key_of x) (key_of y)) xs) xs"

text \<open>
  The specification's one stable sort, on the keyed records of a snapshot: sort them
  stably by rank, then due time, then creation time, the times as points on the time
  line, and map each record to its output record.
\<close>

definition stable_sort_schedule ::
    "(string \<Rightarrow> datetime option) \<Rightarrow> (nat \<times> datetime \<times> datetime \<times> PatientNode) list
       \<Rightarrow> pydict list" where
  "stable_sort_schedule fiso es = map (output_record fiso) (sort_key instant_key es)"

text \<open>A keyed record whose node is detached.\<close>

definition detach_entry ::
    "nat \<times> datetime \<times> datetime \<times> PatientNode \<Rightarrow> nat \<times> datetime \<times> datetime \<times> PatientNode" where
  "detach_entry x = (case x of (r, d, c, node) \<Rightarrow> (r, d, c, detach node))"

text \<open>The components of a keyed record.\<close>

definition entry_rank :: "nat \<times> datetime \<times> datetime \<times> 'a \<Rightarrow> nat" where
  "entry_rank x = (case x of (r, d, c, node) \<Rightarrow> r)"

definition entry_due :: "nat \<times> datetime \<times> datetime \<times> 'a \<Rightarrow> datetime" where
  "entry_due x = (case x of (r, d, c, node) \<Rightarrow> d)"

definition entry_created :: "nat \<times> datetime \<times> datetime \<times> 'a \<Rightarrow> datetime" where
  "entry_created x = (case x of (r, d, c, node) \<Rightarrow> c)"

text \<open>
  A sequence of keyed records is in serving order when no key is less than the key of a
  record before it, under the comparison the sort uses.
\<close>

definition in_serving_order :: "(nat \<times> datetime \<times> datetime \<times> 'a) list \<Rightarrow> bool" where
  "in_serving_order es = sorted_wrt (\<lambda>x y. key_lt (key_of y) (key_of x) = Inr False) es"

text \<open>
  The priority an output record shows: the lower-cased, trimmed label, and \<open>normal\<close>
  when that is empty or the label is not a string.
\<close>

definition out_priority :: "pyval \<Rightarrow> string" where
  "out_priority v =
     (let t = (case v of VStr s \<Rightarrow> py_strip (py_lower s) | _ \<Rightarrow> [])
      in if t = [] then ''normal'' else t)"

text \<open>
  The identifier, the priority and the creation time that an output record shows, and
  what they are expected to be for an input row.
\<close>

definition out_fields :: "pydict \<Rightarrow> pyval option \<times> pyval option \<times> pyval option" where
  "out_fields d = (d ''appointment_id'', d ''priority'', d ''created_at'')"

definition expected_fields ::
    "(string \<Rightarrow> datetime option) \<Rightarrow> pydict \<Rightarrow> pyval option \<times> pyval option \<times> pyval option" where
  "expected_fields fiso a =
     (a ''id'',
      Some (VStr (out_priority (dict_get a ''priority''))),
      Some (VStr (isoformat (parse_created_at fiso (dict_get a ''created_at'')))))"

section \<open>Concrete inputs\<close>

text \<open>A store of three records; the first and the last carry the identifier 1.\<close>

definition example_store :: PatientLinkedList where
  "example_store =
     Some (PatientNode (VInt 1) (VStr ''Abel'') ''normal'' (VStr []) (VStr []) VNone
       (Some (PatientNode (VInt 2) (VStr ''Bina'') ''critical'' (VStr []) (VStr []) VNone
         (Some (PatientNode (VInt 1) (VStr ''Caro'') ''accident'' (VStr []) (VStr []) VNone
           None)))))"

definition example_item :: "int \<Rightarrow> string \<Rightarrow> QueueItem" where
  "example_item k p =
     \<lparr>appointment_id = VInt k, name = VStr ''Abel'', priority = p,
      appointment_date = VStr [], appointment_time = VStr [], created_at = datetime_min\<rparr>"

text \<open>A queue that received a normal item first and a critical item second.\<close>

definition example_queue :: PriorityQueue where
  "example_queue =
     pq_enqueue (pq_enqueue PriorityQueue_init (example_item 1 ''normal''))
       (example_item 2 ''critical'')"

text \<open>
  A row as \<open>_appointment_rows_to_dicts\<close> of the application passes it to the engine,
  and a record as \<open>to_dict\<close> returns it.
\<close>

definition row :: "int \<Rightarrow> string \<Rightarrow> string \<Rightarrow> string \<Rightarrow> string \<Rightarrow> string \<Rightarrow> pydict" where
  "row i n d t p c =
     [''id'' \<mapsto> VInt i, ''name'' \<mapsto> VStr n, ''appointment_date'' \<mapsto> VStr d,
      ''appointment_time'' \<mapsto> VStr t, ''priority'' \<mapsto> VStr p,
      ''status'' \<mapsto> VStr ''scheduled'', ''created_at'' \<mapsto> VStr c, ''doctor_id'' \<mapsto> VInt 1]"

definition out_row :: "int \<Rightarrow> string \<Rightarrow> string \<Rightarrow> string \<Rightarrow> string \<Rightarrow> string \<Rightarrow> pydict" where
  "out_row i n p d t c =
     [''appointment_id'' \<mapsto> VInt i, ''name'' \<mapsto> VStr n, ''priority'' \<mapsto> VStr p,
      ''appointment_date'' \<mapsto> VStr d, ''appointment_time'' \<mapsto> VStr t,
      ''created_at'' \<mapsto> VStr c]"

text \<open>
  Three rows: a normal appointment, a critical one on the next day, and a critical one
  earlier on the first day, registered in this order.
\<close>

definition example_snapshot :: "pydict list" where
  "example_snapshot =
     [row 1 ''Abel'' ''2025-02-01'' ''10:00'' ''normal'' ''2025-01-30T08:00:00.123456+00:00'',
      row 2 ''Bina'' ''2025-02-02'' ''09:00'' ''critical'' ''2025-01-30T08:01:00.123456+00:00'',
      row 3 ''Caro'' ''2025-02-01'' ''08:00'' ''Critical '' ''2025-01-30T08:02:00.123456+00:00'']"

definition example_output :: "pydict list" where
  "example_output =
     [out_row 3 ''Caro'' ''critical'' ''2025-02-01'' ''08:00'' ''2025-01-30T08:02:00.123456+00:00'',
      out_row 2 ''Bina'' ''critical'' ''2025-02-02'' ''09:00'' ''2025-01-30T08:01:00.123456+00:00'',
      out_row 1 ''Abel'' ''normal'' ''2025-02-01'' ''10:00'' ''2025-01-30T08:00:00.123456+00:00'']"

text \<open>The same three rows, registered in serving order.\<close>

definition ordered_snapshot :: "pydict list" where
  "ordered_snapshot =
     [row 3 ''Caro'' ''2025-02-01'' ''08:00'' ''Critical '' ''2025-01-30T08:02:00.123456+00:00'',
      row 2 ''Bina'' ''2025-02-02'' ''09:00'' ''critical'' ''2025-01-30T08:01:00.123456+00:00'',
      row 1 ''Abel'' ''2025-02-01'' ''10:00'' ''normal'' ''2025-01-30T08:00:00.123456+00:00'']"

text \<open>
  Two normal appointments, the second with a date that is not in ISO form, each with the
  offset-aware creation time that the application stores.
\<close>

definition mixed_snapshot :: "pydict list" where
  "mixed_snapshot =
     [row 1 ''Abel'' ''2025-02-01'' ''09:00'' ''normal'' ''2025-01-30T08:00:00.123456+00:00'',
      row 2 ''Bina'' ''01/02/2025'' ''09:00'' ''normal'' ''2025-01-30T08:05:00.123456+00:00'']"

text \<open>One row with a blank priority label and no creation time.\<close>

definition blank_snapshot :: "pydict list" where
  "blank_snapshot = [row 7 ''Dana'' ''2025-02-01'' ''09:00'' ''   '' []]"

text \<open>A keyed record of such a row.\<close>

definition entry ::
    "nat \<Rightarrow> datetime \<Rightarrow> datetime \<Rightarrow> int \<Rightarrow> string \<Rightarrow> string \<Rightarrow> string \<Rightarrow> string \<Rightarrow> string
       \<Rightarrow> nat \<times> datetime \<times> datetime \<times> PatientNode" where
  "entry r due cr i n p d t c =
     (r, due, cr, PatientNode (VInt i) (VStr n) p (VStr d) (VStr t) (VStr c) None)"

text \<open>The keyed records of the three rows, in the order of \<open>example_snapshot\<close> and in serving order.\<close>

definition example_entries :: "(nat \<times> datetime \<times> datetime \<times> PatientNode) list" where
  "example_entries =
     [entry 3 (Naive 63874000800000000) (Aware 63873820800123456 0)
        1 ''Abel'' ''normal'' ''2025-02-01'' ''10:00'' ''2025-01-30T08:00:00.123456+00:00'',
      entry 0 (Naive 63874083600000000) (Aware 63873820860123456 0)
        2 ''Bina'' ''critical'' ''2025-02-02'' ''09:00'' ''2025-01-30T08:01:00.123456+00:00'',
      entry 0 (Naive 63873993600000000) (Aware 63873820920123456 0)
        3 ''Caro'' ''critical'' ''2025-02-01'' ''08:00'' ''2025-01-30T08:02:00.123456+00:00'']"

definition sorted_entries :: "(nat \<times> datetime \<times> datetime \<times> PatientNode) list" where
  "sorted_entries =
     [entry 0 (Naive 63873993600000000) (Aware 63873820920123456 0)
        3 ''Caro'' ''critical'' ''2025-02-01'' ''08:00'' ''2025-01-30T08:02:00.123456+00:00'',
      entry 0 (Naive 63874083600000000) (Aware 63873820860123456 0)
        2 ''Bina'' ''critical'' ''2025-02-02'' ''09:00'' ''2025-01-30T08:01:00.123456+00:00'',
      entry 3 (Naive 63874000800000000) (Aware 63873820800123456 0)
        1 ''Abel'' ''normal'' ''2025-02-01'' ''10:00'' ''2025-01-30T08:00:00.123456+00:00'']"

text \<open>The keyed records of \<open>mixed_snapshot\<close>: the second due time is the creation time.\<close>

definition mixed_entries :: "(nat \<times> datetime \<times> datetime \<times> PatientNode) list" where
  "mixed_entries =
     [entry 3 (Naive 63873997200000000) (Aware 63873820800123456 0)
        1 ''Abel'' ''normal'' ''2025-02-01'' ''09:00'' ''2025-01-30T08:00:00.123456+00:00'',
      entry 3 (Aware 63873821100123456 0) (Aware 63873821100123456 0)
        2 ''Bina'' ''normal'' ''01/02/2025'' ''09:00'' ''2025-01-30T08:05:00.123456+00:00'']"

text \<open>The output records of \<open>mixed_snapshot\<close>, stably sorted by rank, due time and creation time.\<close>

definition mixed_output :: "pydict list" where
  "mixed_output =
     [out_row 2 ''Bina'' ''normal'' ''01/02/2025'' ''09:00'' ''2025-01-30T08:05:00.123456+00:00'',
      out_row 1 ''Abel'' ''normal'' ''2025-02-01'' ''09:00'' ''2025-01-30T08:00:00.123456+00:00'']"

definition blank_entries :: "(nat \<times> datetime \<times> datetime \<times> PatientNode) list" where
  "blank_entries =
     [entry 3 (Naive 63873997200000000) (Naive 0) 7 ''Dana'' [] ''2025-02-01'' ''09:00'' []]"

definition blank_output :: "pydict list" where
  "blank_output = [out_row 7 ''Dana'' ''normal'' ''2025-02-01'' ''09:00'' ''0001-01-01T00:00:00'']"

section \<open>Facts about strings\<close>

lemma of_char_lt: "(of_char c :: nat) < 256"
  by (cases c) (simp add: of_char_def horner_sum_eq_sum)

lemma py_isspace_lower [simp]: "py_isspace (py_lower_char c) = py_isspace c"
  using of_char_lt [of c]
  by (auto simp: py_isspace_def py_lower_char_def Let_def)

lemma py_lower_char_idem [simp]: "py_lower_char (py_lower_char c) = py_lower_char c"
  using of_char_lt [of c]
  by (auto simp: py_lower_char_def Let_def)

lemma py_lower_dropWhile:
  "py_lower (dropWhile py_isspace s) = dropWhile py_isspace (py_lower s)"
  by (induction s) (auto simp: py_lower_def)

lemma py_lower_rev: "py_lower (rev s) = rev (py_lower s)"
  by (simp add: py_lower_def rev_map)

lemma py_lower_strip: "py_lower (py_strip s) = py_strip (py_lower s)"
  by (simp add: py_strip_def py_lower_dropWhile py_lower_rev)

lemma py_lower_idem [simp]: "py_lower (py_lower s) = py_lower s"
  by (simp add: py_lower_def)

lemma dropWhile_strip: "dropWhile py_isspace (py_strip s) = py_strip s"
proof (cases "dropWhile py_isspace s")
  case Nil
  show ?thesis unfolding py_strip_def Nil by simp
next
  case (Cons x u)
  then have nx: "\<not> py_isspace x"
    by (metis hd_dropWhile list.distinct(1) list.sel(1))
  then show ?thesis using Cons
    by (auto simp: py_strip_def dropWhile_append split: if_splits)
qed

lemma py_strip_idem [simp]: "py_strip (py_strip s) = py_strip s"
proof -
  have "py_strip (py_strip s) = rev (dropWhile py_isspace (rev (py_strip s)))"
    by (simp add: py_strip_def [of "py_strip s"] dropWhile_strip)
  also have "\<dots> = py_strip s"
    by (simp add: py_strip_def)
  finally show ?thesis .
qed

lemma normalise_idem [simp]:
  "py_strip (py_lower (py_strip (py_lower s))) = py_strip (py_lower s)"
  by (simp add: py_lower_strip)

lemma py_strip_Nil [simp]: "py_strip [] = []"
  by (simp add: py_strip_def)

lemma py_lower_Nil [simp]: "py_lower [] = []"
  by (simp add: py_lower_def)

lemma normal_literal [simp]: "py_strip (py_lower ''normal'') = ''normal''"
  by code_simp

section \<open>The priority classifier\<close>

lemma rank_loop_le: "i + length xs \<le> 4 \<Longrightarrow> rank_loop i xs p \<le> 3"
  by (induction xs arbitrary: i) auto

lemma rank_loop_order:
  "rank_loop 0 PRIORITY_ORDER q =
     (if q = ''critical'' then 0 else if q = ''emergency'' then 1
      else if q = ''accident'' then 2 else 3)"
  by (simp add: PRIORITY_ORDER_def)

lemma priority_rank_le: "priority_rank p \<le> 3"
  unfolding priority_rank_def Let_def
  by (rule rank_loop_le) (simp add: PRIORITY_ORDER_def)

text \<open>
  Claim C4.  \<open>priority_rank\<close> is total on a string or \<open>None\<close>: it lower-cases and
  trims, sends \<open>critical\<close> to 0, \<open>emergency\<close> to 1, \<open>accident\<close> to 2, \<open>normal\<close> to
  3, and every other value, the empty string and \<open>None\<close> among them, to 3; the result
  is always in the range 0 to 3.
\<close>

theorem priority_rank_total:
  "priority_rank p \<le> 3 \<and>
   priority_rank None = 3 \<and>
   priority_rank (Some []) = 3 \<and>
   priority_rank (Some s) =
     (let q = py_strip (py_lower s)
      in if q = ''critical'' then 0 else if q = ''emergency'' then 1
         else if q = ''accident'' then 2 else 3)"
  by (simp add: priority_rank_le)
     (simp add: priority_rank_def rank_loop_order Let_def)

section \<open>The priority queue\<close>

lemma pq_dequeue_empty: "list_all q_is_empty pq \<Longrightarrow> pq_dequeue pq = (None, pq)"
  by (induction pq) auto

lemma pq_peek_empty: "list_all q_is_empty pq \<Longrightarrow> pq_peek pq = None"
  by (induction pq) auto

text \<open>
  Claim C9.  On a priority queue whose lanes are all empty, \<open>dequeue\<close> and \<open>peek\<close>
  return \<open>None\<close> and raise nothing, and the queue is left as it was, empty; so do
  \<open>dequeue\<close> and \<open>peek\<close> of a single empty lane.
\<close>

theorem empty_dequeue_is_none:
  "pq_is_empty pq \<Longrightarrow>
     pq_dequeue pq = (None, pq) \<and> pq_peek pq = None \<and> pq_is_empty (snd (pq_dequeue pq)) \<and>
     q_dequeue [] = (None, []) \<and> q_peek [] = None"
  by (simp add: pq_is_empty_def pq_dequeue_empty pq_peek_empty q_dequeue_def q_peek_def
        q_is_empty_def)

theorem empty_dequeue_is_none_witness:
  "pq_is_empty PriorityQueue_init \<and>
   pq_dequeue PriorityQueue_init = (None, PriorityQueue_init) \<and>
   pq_peek PriorityQueue_init = None \<and>
   pq_is_empty (snd (pq_dequeue PriorityQueue_init)) \<and>
   q_dequeue [] = (None, []) \<and> q_peek [] = None"
proof -
  have h: "pq_is_empty PriorityQueue_init"
    by (simp add: pq_is_empty_def PriorityQueue_init_def PRIORITY_ORDER_def q_is_empty_def)
  show ?thesis
    using h empty_dequeue_is_none [OF h]
    by (simp add: q_dequeue_def q_peek_def q_is_empty_def)
qed

section \<open>The parsing functions\<close>

lemma order_literals [simp]:
  "py_strip (py_lower ''critical'') = ''critical''"
  "py_strip (py_lower ''emergency'') = ''emergency''"
  "py_strip (py_lower ''accident'') = ''accident''"
  by code_simp+

lemma rank_of_member:
  "priority_rank (Some (if q \<notin> set PRIORITY_ORDER then ''normal'' else q)) =
     rank_loop 0 PRIORITY_ORDER q"
  by (auto simp: priority_rank_def rank_loop_order PRIORITY_ORDER_def Let_def)

lemma enrich_rank:
  "priority_rank
     (Some (if py_strip (py_lower (if p = [] then ''normal'' else p)) \<notin> set PRIORITY_ORDER
            then ''normal'' else py_strip (py_lower (if p = [] then ''normal'' else p)))) =
   priority_rank (Some p)"
  unfolding rank_of_member by (simp add: priority_rank_def Let_def)

lemma parse_appointment_datetime_str:
  "parse_appointment_datetime fiso (VStr d) (VStr t) fb =
     Inr (if py_strip d = [] \<or> py_strip t = [] then fb
          else case fiso (py_strip d @ ''T'' @ py_strip t) of Some x \<Rightarrow> x | None \<Rightarrow> fb)"
  by (auto simp: parse_appointment_datetime_def py_or_def split: option.splits)

lemma enrich_str:
  "enrich fiso (PatientNode i n p (VStr d) (VStr t) c m) =
     Inr (priority_rank (Some p),
          (if py_strip d = [] \<or> py_strip t = [] then parse_created_at fiso c
           else case fiso (py_strip d @ ''T'' @ py_strip t) of
                  Some x \<Rightarrow> x | None \<Rightarrow> parse_created_at fiso c),
          parse_created_at fiso c,
          PatientNode i n p (VStr d) (VStr t) c m)"
  unfolding enrich_def Let_def
  apply (simp only: enrich_rank PatientNode.sel)
  apply (simp add: parse_appointment_datetime_str)
  done

text \<open>
  Claim C5.  The creation time of a record is its \<open>created_at\<close> when that is a
  \<open>datetime\<close> or a string that parses, and \<open>datetime.min\<close> otherwise.  The due time
  used in the sort key is the parse of the trimmed date and time joined by \<open>T\<close> when
  neither is blank and the parse succeeds, and the creation time otherwise.  On strings
  and \<open>None\<close> neither function raises: the result is always \<open>Inr\<close>.
\<close>

theorem parse_fallbacks:
  "parse_created_at fiso (VDatetime x) = x \<and>
   parse_created_at fiso (VStr s) =
     (if s = [] then datetime_min
      else case fiso s of Some x \<Rightarrow> x | None \<Rightarrow> datetime_min) \<and>
   parse_created_at fiso VNone = datetime_min \<and>
   parse_created_at fiso (VInt k) = datetime_min \<and>
   parse_appointment_datetime fiso (VStr d) (VStr t) fb =
     Inr (if py_strip d = [] \<or> py_strip t = [] then fb
          else case fiso (py_strip d @ ''T'' @ py_strip t) of Some x \<Rightarrow> x | None \<Rightarrow> fb) \<and>
   parse_appointment_datetime fiso VNone (VStr t) fb = Inr fb \<and>
   parse_appointment_datetime fiso (VStr d) VNone fb = Inr fb \<and>
   parse_appointment_datetime fiso VNone VNone fb = Inr fb \<and>
   enrich fiso (PatientNode i n p (VStr d) (VStr t) c m) =
     Inr (priority_rank (Some p),
          (if py_strip d = [] \<or> py_strip t = [] then parse_created_at fiso c
           else case fiso (py_strip d @ ''T'' @ py_strip t) of
                  Some x \<Rightarrow> x | None \<Rightarrow> parse_created_at fiso c),
          parse_created_at fiso c,
          PatientNode i n p (VStr d) (VStr t) c m)"
proof -
  have a: "parse_appointment_datetime fiso VNone (VStr t) fb = Inr fb"
    by (simp add: parse_appointment_datetime_def py_or_def)
  have b: "parse_appointment_datetime fiso (VStr d) VNone fb = Inr fb"
    by (simp add: parse_appointment_datetime_def py_or_def)
  have c: "parse_appointment_datetime fiso VNone VNone fb = Inr fb"
    by (simp add: parse_appointment_datetime_def py_or_def)
  show ?thesis
    using a b c parse_appointment_datetime_str [of fiso d t fb] enrich_str [of fiso i n p d t c m]
    by simp
qed

section \<open>The record store\<close>

lemma remove_from_fst:
  "fst (remove_from h k) = (\<exists>x \<in> set (nodes_from h). PatientNode.appointment_id x = VInt k)"
  by (induction h k rule: remove_from.induct) (auto split: prod.splits)

lemma nodes_from_detach:
  "map detach (nodes_from (PatientNode i n p d t c m)) =
     PatientNode i n p d t c None # map detach (case m of None \<Rightarrow> [] | Some x \<Rightarrow> nodes_from x)"
  by (cases m) auto

lemma detach_id [simp]: "PatientNode.appointment_id (detach x) = PatientNode.appointment_id x"
  by (cases x) simp

lemma remove_from_records:
  "records (snd (remove_from h k)) =
     takeWhile (\<lambda>x. PatientNode.appointment_id x \<noteq> VInt k) (records (Some h)) @
     drop 1 (dropWhile (\<lambda>x. PatientNode.appointment_id x \<noteq> VInt k) (records (Some h)))"
  by (induction h k rule: remove_from.induct)
     (auto simp: records_def ll_to_list_def nodes_from_detach simp del: nodes_from.simps
           split: prod.splits)

lemma remove_from_unchanged:
  "\<not> fst (remove_from h k) \<Longrightarrow> snd (remove_from h k) = Some h"
  by (induction h k rule: remove_from.induct) (auto split: prod.splits if_splits)

text \<open>
  Claim C8.  \<open>remove_by_id\<close> answers \<open>True\<close> exactly when some record carries the
  identifier; the records left are those before the first match followed by those after
  it, in their order; and when it answers \<open>False\<close> the store is unchanged.
\<close>

theorem remove_by_id_first_match:
  assumes "remove_by_id l k = (b, l')"
  shows "b = (\<exists>x \<in> set (records l). PatientNode.appointment_id x = VInt k) \<and>
         records l' =
           takeWhile (\<lambda>x. PatientNode.appointment_id x \<noteq> VInt k) (records l) @
           drop 1 (dropWhile (\<lambda>x. PatientNode.appointment_id x \<noteq> VInt k) (records l)) \<and>
         (\<not> b \<longrightarrow> l' = l)"
proof (cases l)
  case None
  with assms show ?thesis by (simp add: remove_by_id_def records_def ll_to_list_def)
next
  case (Some h)
  with assms have r: "remove_from h k = (b, l')" by (simp add: remove_by_id_def)
  have 1: "b = (\<exists>x \<in> set (records l). PatientNode.appointment_id x = VInt k)"
    using remove_from_fst [of h k] r Some by (simp add: records_def ll_to_list_def)
  have 2: "records l' =
           takeWhile (\<lambda>x. PatientNode.appointment_id x \<noteq> VInt k) (records l) @
           drop 1 (dropWhile (\<lambda>x. PatientNode.appointment_id x \<noteq> VInt k) (records l))"
    using remove_from_records [of h k] r Some by simp
  have 3: "\<not> b \<longrightarrow> l' = l"
    using remove_from_unchanged [of h k] r Some by simp
  from 1 2 3 show ?thesis by blast
qed




theorem remove_by_id_first_match_witness:
  "remove_by_id example_store 1 =
     (True, Some (PatientNode (VInt 2) (VStr ''Bina'') ''critical'' (VStr []) (VStr []) VNone
         (Some (PatientNode (VInt 1) (VStr ''Caro'') ''accident'' (VStr []) (VStr []) VNone
           None)))) \<and>
   (\<exists>x \<in> set (records example_store). PatientNode.appointment_id x = VInt 1) \<and>
   records (snd (remove_by_id example_store 1)) =
     [PatientNode (VInt 2) (VStr ''Bina'') ''critical'' (VStr []) (VStr []) VNone None,
      PatientNode (VInt 1) (VStr ''Caro'') ''accident'' (VStr []) (VStr []) VNone None]"
proof -
  have h: "remove_by_id example_store 1 =
     (True, Some (PatientNode (VInt 2) (VStr ''Bina'') ''critical'' (VStr []) (VStr []) VNone
         (Some (PatientNode (VInt 1) (VStr ''Caro'') ''accident'' (VStr []) (VStr []) VNone
           None))))"
    by (simp add: remove_by_id_def example_store_def)
  show ?thesis
    using h remove_by_id_first_match [OF h]
    by (simp add: records_def ll_to_list_def example_store_def)
qed

section \<open>Level precedence in the priority queue\<close>

lemma foldl_extend: "foldl (\<lambda>out q. out @ q_to_list q) acc pq = acc @ concat pq"
  by (induction pq arbitrary: acc) (auto simp: q_to_list_def)

lemma pq_to_list_concat: "pq_to_list pq = concat pq"
  by (simp add: pq_to_list_def foldl_extend)

lemma item_rank_lt: "item_rank x < 4"
  using priority_rank_le [of "Some (priority x)"] by (simp add: item_rank_def)

lemma lanes_ok_init: "lanes_ok PriorityQueue_init"
  by (simp add: lanes_ok_def PriorityQueue_init_def PRIORITY_ORDER_def nth_Cons' )

lemma lanes_ok_enqueue: "lanes_ok pq \<Longrightarrow> lanes_ok (pq_enqueue pq x)"
  using item_rank_lt [of x]
  by (auto simp: lanes_ok_def pq_enqueue_def Let_def q_enqueue_def nth_list_update item_rank_def)

lemma pq_dequeue_lane:
  "pq_dequeue pq = (Some x, pq') \<Longrightarrow>
     \<exists>r < length pq. (\<forall>r' < r. pq ! r' = []) \<and> pq ! r \<noteq> [] \<and> x = hd (pq ! r) \<and>
        pq' = pq[r := tl (pq ! r)]"
proof (induction pq arbitrary: pq')
  case Nil
  then show ?case by simp
next
  case (Cons q qs)
  show ?case
  proof (cases "q = []")
    case True
    with Cons.prems obtain qs' where d: "pq_dequeue qs = (Some x, qs')" and p: "pq' = q # qs'"
      by (auto simp: q_is_empty_def split: prod.splits)
    from Cons.IH [OF d] obtain r where
      r: "r < length qs" "\<forall>r' < r. qs ! r' = []" "qs ! r \<noteq> []" "x = hd (qs ! r)"
         "qs' = qs[r := tl (qs ! r)]" by blast
    have "\<forall>r' < Suc r. (q # qs) ! r' = []"
      using True r(2) by (auto simp: nth_Cons')
    with r p show ?thesis
      by (intro exI [of _ "Suc r"]) simp
  next
    case False
    with Cons.prems have "x = hd q" "pq' = tl q # qs"
      by (auto simp: q_is_empty_def q_dequeue_def)
    with False show ?thesis
      by (intro exI [of _ 0]) simp
  qed
qed

lemma lanes_ok_dequeue: "lanes_ok pq \<Longrightarrow> lanes_ok (snd (pq_dequeue pq))"
proof (cases "pq_dequeue pq")
  case (Pair o' pq')
  assume ok: "lanes_ok pq"
  show ?thesis
  proof (cases o')
    case None
    have "pq' = pq" using Pair None
    proof (induction pq arbitrary: pq')
      case Nil then show ?case by simp
    next
      case (Cons q qs) then show ?case
        by (auto simp: q_dequeue_def split: prod.splits if_splits)
    qed
    with ok Pair show ?thesis by simp
  next
    case (Some x)
    with Pair pq_dequeue_lane [of pq x pq'] obtain r where
      r: "r < length pq" "pq' = pq[r := tl (pq ! r)]" "pq ! r \<noteq> []" by blast
    have "set (tl (pq ! r)) \<subseteq> set (pq ! r)" using r(3) by (auto dest: list.set_sel(2))
    with ok r Pair show ?thesis
      by (auto simp: lanes_ok_def nth_list_update)
  qed
qed

lemma pq_state_lanes_ok: "pq_state pq \<Longrightarrow> lanes_ok pq"
  by (induction rule: pq_state.induct)
     (simp_all add: lanes_ok_init lanes_ok_enqueue lanes_ok_dequeue)

lemma concat_lanes_sorted:
  "(\<forall>r < length pq. \<forall>x \<in> set (pq ! r). f x = k + r) \<Longrightarrow>
     sorted (map f (concat pq)) \<and> (\<forall>x \<in> set (concat pq). k \<le> f x)"
proof (induction pq arbitrary: k)
  case Nil
  then show ?case by simp
next
  case (Cons q qs)
  have q: "\<forall>x \<in> set q. f x = k" using Cons.prems by (auto dest: spec [of _ 0])
  have "\<forall>r < length qs. \<forall>x \<in> set (qs ! r). f x = Suc k + r"
    using Cons.prems by (auto dest: spec [of _ "Suc r" for r])
  from Cons.IH [OF this] have
    s: "sorted (map f (concat qs))" and b: "\<forall>x \<in> set (concat qs). Suc k \<le> f x" by auto
  have b': "\<forall>x \<in> set (concat qs). k \<le> f x"
    using b by (auto dest: Suc_leD)
  have "sorted (map f q)" using q by (induction q) auto
  with s q b' show ?case
    by (auto simp: sorted_append)
qed

lemma lanes_ok_sorted: "lanes_ok pq \<Longrightarrow> sorted (map item_rank (pq_to_list pq))"
  using concat_lanes_sorted [of pq item_rank 0]
  by (simp add: lanes_ok_def pq_to_list_concat)

lemma pq_dequeue_to_list:
  "pq_dequeue pq = (Some x, pq') \<Longrightarrow> pq_to_list pq = x # pq_to_list pq'"
  unfolding pq_to_list_concat
proof (induction pq arbitrary: pq')
  case Nil
  then show ?case by simp
next
  case (Cons q qs)
  then show ?case
    by (cases q) (auto simp: q_is_empty_def q_dequeue_def split: prod.splits)
qed

lemma pq_dequeue_progress:
  "\<not> pq_is_empty pq \<Longrightarrow> \<exists>x pq'. pq_dequeue pq = (Some x, pq')"
  unfolding pq_is_empty_def
  by (induction pq) (auto simp: q_is_empty_def q_dequeue_def split: prod.splits)

lemma pq_dequeue_first_lane:
  "r < length pq \<Longrightarrow> (\<forall>r' < r. pq ! r' = []) \<Longrightarrow> pq ! r \<noteq> [] \<Longrightarrow>
     pq_dequeue pq = (Some (hd (pq ! r)), pq[r := tl (pq ! r)])"
proof (induction pq arbitrary: r)
  case Nil
  then show ?case by simp
next
  case (Cons q qs)
  show ?case
  proof (cases r)
    case 0
    with Cons.prems show ?thesis
      by (simp add: q_is_empty_def q_dequeue_def)
  next
    case (Suc k)
    have q: "q = []" using Cons.prems(2) Suc by (auto dest: spec [of _ 0])
    have k: "k < length qs" "qs ! k \<noteq> []" using Cons.prems(1,3) Suc by simp_all
    have "\<forall>r' < k. qs ! r' = []"
      using Cons.prems(2) Suc by (auto dest: spec [of _ "Suc r'" for r'])
    from Cons.IH [OF k(1) this k(2)] q Suc show ?thesis
      by (simp add: q_is_empty_def)
  qed
qed

lemma pq_dequeue_None: "pq_dequeue pq = (None, pq') \<Longrightarrow> pq_to_list pq = []"
  unfolding pq_to_list_concat
  by (induction pq arbitrary: pq')
     (auto simp: q_is_empty_def q_dequeue_def split: prod.splits if_splits)

lemma drain_to_list: "drain pq = pq_to_list pq"
proof (induction pq rule: drain.induct)
  case (1 pq)
  show ?case
  proof (cases "pq_dequeue pq")
    case (Pair o' pq')
    show ?thesis
    proof (cases o')
      case None
      with Pair pq_dequeue_None [of pq pq'] show ?thesis
        by (simp add: drain.simps [of pq])
    next
      case (Some x)
      with Pair 1 have "drain pq' = pq_to_list pq'" by auto
      with Pair Some pq_dequeue_to_list [of pq x pq'] show ?thesis
        by (simp add: drain.simps [of pq])
    qed
  qed
qed

lemma sorted_ranks_precede:
  assumes "sorted (map f xs)" "i < length xs" "j < length xs" "f (xs ! i) < f (xs ! j)"
  shows "i < j"
proof (rule ccontr)
  assume "\<not> i < j"
  then have "j \<le> i" by simp
  with assms(1,2) have "map f xs ! j \<le> map f xs ! i"
    by (intro sorted_nth_mono) simp_all
  with assms(2,3,4) show False by simp
qed

text \<open>
  Claim C2.  In every state of the priority queue, reached from a fresh queue by
  \<open>enqueue\<close> and \<open>dequeue\<close>:

  \<^item> \<open>dequeue\<close> on a queue that is not empty returns an item;

  \<^item> when lane \<open>r\<close> is the first lane that is not empty, \<open>dequeue\<close> returns the first
    item of lane \<open>r\<close> and leaves the queue with that item removed from lane \<open>r\<close>, and
    whenever \<open>dequeue\<close> returns an item it is that one: the lanes before its lane are
    empty and its rank is the number of its lane;

  \<^item> the item returned has the lowest rank in the queue: no item of lower rank is in
    any lane;

  \<^item> the item returned is the head of the flattened sequence, whose tail is the
    flattened sequence of the queue afterwards;

  \<^item> the drained sequence is the flattened sequence; it is ordered by rank, and an
    item of rank \<open>r\<close> stands in it before every item of a rank above \<open>r\<close>.
\<close>

theorem level_precedence:
  assumes "pq_state pq"
  shows "sorted (map item_rank (pq_to_list pq)) \<and>
         (\<forall>x pq'. pq_dequeue pq = (Some x, pq') \<longrightarrow>
            (\<exists>r < 4. (\<forall>r' < r. pq ! r' = []) \<and> pq ! r \<noteq> [] \<and> x = hd (pq ! r) \<and>
                      pq' = pq[r := tl (pq ! r)] \<and> item_rank x = r) \<and>
            (\<forall>y \<in> set (pq_to_list pq). item_rank x \<le> item_rank y) \<and>
            pq_to_list pq = x # pq_to_list pq') \<and>
         (\<not> pq_is_empty pq \<longrightarrow> (\<exists>x pq'. pq_dequeue pq = (Some x, pq'))) \<and>
         (\<forall>r < 4. (\<forall>r' < r. pq ! r' = []) \<and> pq ! r \<noteq> [] \<longrightarrow>
            pq_dequeue pq = (Some (hd (pq ! r)), pq[r := tl (pq ! r)])) \<and>
         (\<forall>r < 4. \<forall>y \<in> set (pq ! r). \<forall>x pq'. pq_dequeue pq = (Some x, pq') \<longrightarrow>
            item_rank x \<le> r) \<and>
         drain pq = pq_to_list pq \<and>
         sorted (map item_rank (drain pq)) \<and>
         (\<forall>i < length (drain pq). \<forall>j < length (drain pq).
            item_rank (drain pq ! i) < item_rank (drain pq ! j) \<longrightarrow> i < j)"
proof -
  have ok: "lanes_ok pq" using assms by (rule pq_state_lanes_ok)
  have len: "length pq = 4" using ok by (simp add: lanes_ok_def)
  have s: "sorted (map item_rank (pq_to_list pq))" using ok by (rule lanes_ok_sorted)
  have a: "(\<exists>r < 4. (\<forall>r' < r. pq ! r' = []) \<and> pq ! r \<noteq> [] \<and> x = hd (pq ! r) \<and>
                      pq' = pq[r := tl (pq ! r)] \<and> item_rank x = r) \<and>
            (\<forall>y \<in> set (pq_to_list pq). item_rank x \<le> item_rank y) \<and>
            pq_to_list pq = x # pq_to_list pq'"
    if d: "pq_dequeue pq = (Some x, pq')" for x pq'
  proof -
    from pq_dequeue_lane [OF d] obtain r where
      r: "r < length pq" "\<forall>r' < r. pq ! r' = []" "pq ! r \<noteq> []" "x = hd (pq ! r)"
         "pq' = pq[r := tl (pq ! r)]" by blast
    have r4: "r < 4" using r(1) len by simp
    have "x \<in> set (pq ! r)" using r(3,4) by simp
    then have xr: "item_rank x = r" using ok r4 by (simp add: lanes_ok_def)
    have l: "pq_to_list pq = x # pq_to_list pq'" using d by (rule pq_dequeue_to_list)
    have "\<forall>y \<in> set (pq_to_list pq). item_rank x \<le> item_rank y"
      using s unfolding l by auto
    with r r4 xr l show ?thesis by blast
  qed
  have b: "\<not> pq_is_empty pq \<longrightarrow> (\<exists>x pq'. pq_dequeue pq = (Some x, pq'))"
    using pq_dequeue_progress [of pq] by blast
  have c: "\<forall>r < 4. (\<forall>r' < r. pq ! r' = []) \<and> pq ! r \<noteq> [] \<longrightarrow>
            pq_dequeue pq = (Some (hd (pq ! r)), pq[r := tl (pq ! r)])"
  proof (intro allI impI)
    fix r :: nat
    assume "r < 4" and "(\<forall>r' < r. pq ! r' = []) \<and> pq ! r \<noteq> []"
    then show "pq_dequeue pq = (Some (hd (pq ! r)), pq[r := tl (pq ! r)])"
      using pq_dequeue_first_lane [of r pq] len by simp
  qed
  have e: "item_rank x \<le> r"
    if r: "r < 4" and y: "y \<in> set (pq ! r)" and d: "pq_dequeue pq = (Some x, pq')"
    for r y x pq'
  proof -
    have "pq ! r \<in> set pq" using r len by simp
    with y have "y \<in> set (concat pq)" by auto
    then have "y \<in> set (pq_to_list pq)" by (simp add: pq_to_list_concat)
    with a [OF d] have "item_rank x \<le> item_rank y" by blast
    moreover have "item_rank y = r" using ok r y by (simp add: lanes_ok_def)
    ultimately show ?thesis by simp
  qed
  have f: "drain pq = pq_to_list pq" by (rule drain_to_list)
  have g: "sorted (map item_rank (drain pq))" using s by (simp only: f)
  have h: "\<forall>i < length (drain pq). \<forall>j < length (drain pq).
            item_rank (drain pq ! i) < item_rank (drain pq ! j) \<longrightarrow> i < j"
  proof (intro allI impI)
    fix i j
    assume "i < length (drain pq)" "j < length (drain pq)"
      "item_rank (drain pq ! i) < item_rank (drain pq ! j)"
    with g show "i < j" by (rule sorted_ranks_precede)
  qed
  have a': "\<forall>x pq'. pq_dequeue pq = (Some x, pq') \<longrightarrow>
            (\<exists>r < 4. (\<forall>r' < r. pq ! r' = []) \<and> pq ! r \<noteq> [] \<and> x = hd (pq ! r) \<and>
                      pq' = pq[r := tl (pq ! r)] \<and> item_rank x = r) \<and>
            (\<forall>y \<in> set (pq_to_list pq). item_rank x \<le> item_rank y) \<and>
            pq_to_list pq = x # pq_to_list pq'"
    by (intro allI impI) (rule a)
  have e': "\<forall>r < 4. \<forall>y \<in> set (pq ! r). \<forall>x pq'. pq_dequeue pq = (Some x, pq') \<longrightarrow>
            item_rank x \<le> r"
    by (intro allI impI ballI) (rule e)
  show ?thesis
    by (intro conjI) (rule s a' b c e' f g h)+
qed

theorem level_precedence_witness:
  "pq_state example_queue \<and>
   \<not> pq_is_empty example_queue \<and>
   pq_to_list example_queue = [example_item 2 ''critical'', example_item 1 ''normal''] \<and>
   sorted (map item_rank (pq_to_list example_queue)) \<and>
   pq_dequeue example_queue =
     (Some (example_item 2 ''critical''),
      pq_enqueue PriorityQueue_init (example_item 1 ''normal'')) \<and>
   item_rank (example_item 2 ''critical'') \<le> item_rank (example_item 1 ''normal'') \<and>
   drain example_queue = [example_item 2 ''critical'', example_item 1 ''normal'']"
proof -
  have h: "pq_state example_queue"
    unfolding example_queue_def by (intro pq_state.intros)
  have rn: "priority_rank (Some ''normal'') = 3"
    by (simp add: priority_rank_def rank_loop_order)
  have rc: "priority_rank (Some ''critical'') = 0"
    by (simp add: priority_rank_def rank_loop_order)
  have q: "example_queue = [[example_item 2 ''critical''], [], [], [example_item 1 ''normal'']]"
    by (simp add: example_queue_def pq_enqueue_def PriorityQueue_init_def PRIORITY_ORDER_def
          example_item_def rn rc q_enqueue_def)
  have e: "pq_enqueue PriorityQueue_init (example_item 1 ''normal'') =
             [[], [], [], [example_item 1 ''normal'']]"
    by (simp add: pq_enqueue_def PriorityQueue_init_def PRIORITY_ORDER_def
          example_item_def rn q_enqueue_def)
  have d: "pq_dequeue example_queue =
     (Some (example_item 2 ''critical''),
      pq_enqueue PriorityQueue_init (example_item 1 ''normal''))"
    unfolding q e by (simp add: q_is_empty_def q_dequeue_def)
  have l: "pq_to_list example_queue = [example_item 2 ''critical'', example_item 1 ''normal'']"
    unfolding q by (simp add: pq_to_list_def q_to_list_def)
  have n: "\<not> pq_is_empty example_queue"
    unfolding q by (simp add: pq_is_empty_def q_is_empty_def)
  note t = level_precedence [OF h]
  from t have s: "sorted (map item_rank (pq_to_list example_queue))"
    by (elim conjE)
  from t have dr: "drain example_queue = pq_to_list example_queue"
    by (elim conjE)
  from t have "\<forall>x pq'. pq_dequeue example_queue = (Some x, pq') \<longrightarrow>
            (\<exists>r < 4. (\<forall>r' < r. example_queue ! r' = []) \<and> example_queue ! r \<noteq> [] \<and>
                      x = hd (example_queue ! r) \<and>
                      pq' = example_queue[r := tl (example_queue ! r)] \<and> item_rank x = r) \<and>
            (\<forall>y \<in> set (pq_to_list example_queue). item_rank x \<le> item_rank y) \<and>
            pq_to_list example_queue = x # pq_to_list pq'"
    by (elim conjE)
  with d have "\<forall>y \<in> set (pq_to_list example_queue).
      item_rank (example_item 2 ''critical'') \<le> item_rank y"
    by blast
  then have le: "item_rank (example_item 2 ''critical'') \<le> item_rank (example_item 1 ''normal'')"
    unfolding l by simp
  from dr l have dl: "drain example_queue = [example_item 2 ''critical'', example_item 1 ''normal'']"
    by simp
  from h n l s d le dl show ?thesis
    by (intro conjI)
qed

section \<open>The sort\<close>

lemma key_lt_instant:
  "key_lt (key_of y) (key_of x) = Inr b \<Longrightarrow> b = (instant_key y < instant_key x)"
  by (cases x rule: prod_cases4; cases y rule: prod_cases4)
     (auto simp: key_of_def instant_key_def dt_lt_def dt_eq_def split: if_splits)

lemma key_lt_error: "key_lt a b = Inl e \<Longrightarrow> e = TypeError"
  by (cases a rule: prod_cases3; cases b rule: prod_cases3) (auto simp: dt_lt_def split: if_splits)

lemma py_insort_insort_key:
  "py_insort x ys = Inr zs \<Longrightarrow> zs = insort_key instant_key x ys"
proof (induction ys arbitrary: zs)
  case Nil
  then show ?case by simp
next
  case (Cons y ys)
  from Cons.prems obtain b where b: "key_lt (key_of y) (key_of x) = Inr b"
    by (auto split: sum.splits)
  have bi: "b = (instant_key y < instant_key x)" using b by (rule key_lt_instant)
  show ?case
  proof (cases b)
    case True
    with Cons.prems b obtain ws where w: "py_insort x ys = Inr ws" "zs = y # ws"
      by (auto split: sum.splits)
    from Cons.IH [OF w(1)] w(2) True bi show ?thesis by auto
  next
    case False
    with Cons.prems b have "zs = x # y # ys" by simp
    with False bi show ?thesis by auto
  qed
qed

lemma py_sort_sort_key: "py_sort xs = Inr ys \<Longrightarrow> ys = sort_key instant_key xs"
proof (induction xs arbitrary: ys)
  case Nil
  then show ?case by simp
next
  case (Cons x xs)
  from Cons.prems obtain ws where w: "py_sort xs = Inr ws" "py_insort x ws = Inr ys"
    by (auto split: sum.splits)
  from Cons.IH [OF w(1)] py_insort_insort_key [OF w(2)] show ?case by simp
qed

lemma py_insort_error: "py_insort x ys = Inl e \<Longrightarrow> e = TypeError"
  by (induction ys) (auto split: sum.splits if_splits dest: key_lt_error)

lemma py_sort_error: "py_sort xs = Inl e \<Longrightarrow> e = TypeError"
  by (induction xs arbitrary: e) (auto split: sum.splits dest: py_insort_error)

lemma comparable_sym: "comparable a b = comparable b a"
  by (cases a rule: prod_cases3; cases b rule: prod_cases3)
     (auto simp: comparable_def dt_lt_def dt_eq_def)

lemma comparable_iff:
  "comparable (r1, d1, c1) (r2, d2, c2) =
     (r1 = r2 \<longrightarrow> aware d1 = aware d2 \<and> (instant d1 = instant d2 \<longrightarrow> aware c1 = aware c2))"
  by (auto simp: comparable_def dt_lt_def dt_eq_def)

lemma py_insort_ok:
  "\<forall>y \<in> set ys. comparable (key_of y) (key_of x) \<Longrightarrow> \<exists>zs. py_insort x ys = Inr zs"
  by (induction ys) (auto simp: comparable_def split: sum.splits)

lemma lex3_le:
  "((r1::nat, i1::int, j1::int) \<le> (r2, i2, j2)) \<Longrightarrow> r1 \<le> r2 \<and> (r1 = r2 \<longrightarrow> i1 \<le> i2)"
  by auto

lemma comparable_chain:
  assumes "comparable (key_of x) (key_of y)" "comparable (key_of y) (key_of z)"
    and "instant_key x \<le> instant_key y" "instant_key y \<le> instant_key z"
  shows "comparable (key_of x) (key_of z)"
proof -
  obtain r1 d1 c1 n1 where x: "x = (r1, d1, c1, n1)" by (cases x rule: prod_cases4)
  obtain r2 d2 c2 n2 where y: "y = (r2, d2, c2, n2)" by (cases y rule: prod_cases4)
  obtain r3 d3 c3 n3 where z: "z = (r3, d3, c3, n3)" by (cases z rule: prod_cases4)
  have xy: "r1 = r2 \<longrightarrow> aware d1 = aware d2 \<and> (instant d1 = instant d2 \<longrightarrow> aware c1 = aware c2)"
    using assms(1) by (simp add: x y key_of_def comparable_iff)
  have yz: "r2 = r3 \<longrightarrow> aware d2 = aware d3 \<and> (instant d2 = instant d3 \<longrightarrow> aware c2 = aware c3)"
    using assms(2) by (simp add: y z key_of_def comparable_iff)
  have o1: "r1 \<le> r2 \<and> (r1 = r2 \<longrightarrow> instant d1 \<le> instant d2)"
    using assms(3) unfolding x y instant_key_def prod.case by (rule lex3_le)
  have o2: "r2 \<le> r3 \<and> (r2 = r3 \<longrightarrow> instant d2 \<le> instant d3)"
    using assms(4) unfolding y z instant_key_def prod.case by (rule lex3_le)
  have "r1 = r3 \<longrightarrow> aware d1 = aware d3 \<and> (instant d1 = instant d3 \<longrightarrow> aware c1 = aware c3)"
  proof
    assume e: "r1 = r3"
    with o1 o2 have r: "r1 = r2" "r2 = r3" by auto
    with xy yz have a: "aware d1 = aware d3" by simp
    have "aware c1 = aware c3" if i: "instant d1 = instant d3"
    proof -
      have "instant d1 = instant d2" "instant d2 = instant d3" using o1 o2 r i by auto
      with xy yz r show ?thesis by simp
    qed
    with a show "aware d1 = aware d3 \<and> (instant d1 = instant d3 \<longrightarrow> aware c1 = aware c3)" by simp
  qed
  then show ?thesis by (simp add: x z key_of_def comparable_iff)
qed

lemma py_insort_comparable:
  assumes "py_insort x ys = Inr zs" "sorted (map instant_key ys)"
    and "\<forall>a \<in> set ys. \<forall>b \<in> set ys. comparable (key_of a) (key_of b)"
  shows "\<forall>y \<in> set ys. comparable (key_of y) (key_of x)"
  using assms
proof (induction ys arbitrary: zs)
  case Nil
  then show ?case by simp
next
  case (Cons y ys)
  from Cons.prems(1) obtain b where b: "key_lt (key_of y) (key_of x) = Inr b"
    by (auto split: sum.splits)
  then have cy: "comparable (key_of y) (key_of x)" by (simp add: comparable_def)
  have bi: "b = (instant_key y < instant_key x)" using b by (rule key_lt_instant)
  show ?case
  proof (cases b)
    case True
    with Cons.prems(1) b obtain ws where w: "py_insort x ys = Inr ws"
      by (auto split: sum.splits)
    have "\<forall>y \<in> set ys. comparable (key_of y) (key_of x)"
      using Cons.IH [OF w] Cons.prems(2,3) by simp
    with cy show ?thesis by simp
  next
    case False
    have xy: "instant_key x \<le> instant_key y" using False bi by simp
    have "comparable (key_of y') (key_of x)" if "y' \<in> set ys" for y'
    proof -
      have "instant_key y \<le> instant_key y'" using Cons.prems(2) that by auto
      moreover have "comparable (key_of y) (key_of y')" using Cons.prems(3) that by simp
      moreover have "comparable (key_of x) (key_of y)" using cy by (simp add: comparable_sym)
      ultimately have "comparable (key_of x) (key_of y')" using xy comparable_chain by blast
      then show ?thesis by (simp add: comparable_sym)
    qed
    with cy show ?thesis by simp
  qed
qed

lemma comparable_refl: "comparable a a"
  by (cases a rule: prod_cases3) (simp add: comparable_iff)

lemma all_comparable_iff:
  "all_comparable xs = (\<forall>a \<in> set xs. \<forall>b \<in> set xs. comparable (key_of a) (key_of b))"
  by (simp add: all_comparable_def list_all_iff)

lemma py_sort_all_comparable: "py_sort xs = Inr ys \<Longrightarrow> all_comparable xs"
proof (induction xs arbitrary: ys)
  case Nil
  then show ?case by (simp add: all_comparable_iff)
next
  case (Cons x xs)
  from Cons.prems obtain ws where w: "py_sort xs = Inr ws" "py_insort x ws = Inr ys"
    by (auto split: sum.splits)
  have ih: "all_comparable xs" using Cons.IH [OF w(1)] .
  have ws: "ws = sort_key instant_key xs" using w(1) by (rule py_sort_sort_key)
  have "\<forall>y \<in> set ws. comparable (key_of y) (key_of x)"
    using w(2) ih unfolding ws all_comparable_iff
    by (intro py_insort_comparable [where zs = ys]) simp_all
  then have "\<forall>y \<in> set xs. comparable (key_of y) (key_of x)" by (simp add: ws)
  with ih show ?case
    by (auto simp: all_comparable_iff comparable_refl comparable_sym)
qed

lemma all_comparable_py_sort: "all_comparable xs \<Longrightarrow> \<exists>ys. py_sort xs = Inr ys"
proof (induction xs)
  case Nil
  then show ?case by simp
next
  case (Cons x xs)
  then have "all_comparable xs" by (auto simp: all_comparable_iff)
  with Cons.IH obtain ws where w: "py_sort xs = Inr ws" by blast
  then have "set ws = set xs" by (auto dest: py_sort_sort_key)
  with Cons.prems have "\<forall>y \<in> set ws. comparable (key_of y) (key_of x)"
    by (auto simp: all_comparable_iff)
  from py_insort_ok [OF this] w show ?case by auto
qed

lemma py_sort_eq:
  "py_sort xs = (if all_comparable xs then Inr (sort_key instant_key xs) else Inl TypeError)"
proof (cases "py_sort xs")
  case (Inl e)
  then have "\<not> all_comparable xs" using all_comparable_py_sort [of xs] by auto
  with Inl py_sort_error [OF Inl] show ?thesis by simp
next
  case (Inr ys)
  with py_sort_sort_key [OF Inr] py_sort_all_comparable [OF Inr] show ?thesis by simp
qed

section \<open>Ingest and traversal\<close>

lemma nodes_from_append:
  "map detach (nodes_from (append_node h node)) = map detach (nodes_from h) @ map detach (nodes_from node)"
  by (induction h node rule: append_node.induct) auto

lemma make_node_detached: "make_node a = Inr node \<Longrightarrow> nxt node = None"
  by (auto simp: make_node_def split: option.splits sum.splits)

lemma nodes_from_single: "nxt node = None \<Longrightarrow> map detach (nodes_from node) = [node]"
  by (cases node) auto

lemma insert_Inr:
  "make_node a = Inr node \<Longrightarrow>
     \<exists>l. insert_from_appointment_dict head a = Inr l \<and> records l = records head @ [node]"
  by (cases head)
     (auto simp: insert_from_appointment_dict_def records_def ll_to_list_def nodes_from_append
        nodes_from_single make_node_detached)

lemma insert_Inl: "make_node a = Inl e \<Longrightarrow> insert_from_appointment_dict head a = Inl e"
  by (simp add: insert_from_appointment_dict_def)

lemma insert_all_Inl: "make_nodes as = Inl e \<Longrightarrow> insert_all head as = Inl e"
proof (induction as arbitrary: head)
  case Nil
  then show ?case by simp
next
  case (Cons a as)
  show ?case
  proof (cases "make_node a")
    case (Inl e')
    with Cons.prems show ?thesis by (simp add: insert_Inl)
  next
    case (Inr node)
    with Cons.prems have m: "make_nodes as = Inl e" by (auto split: sum.splits)
    from insert_Inr [OF Inr, of head] obtain l where
      "insert_from_appointment_dict head a = Inr l" by blast
    with Cons.IH [OF m] show ?thesis by simp
  qed
qed

lemma insert_all_Inr:
  "make_nodes as = Inr nodes \<Longrightarrow>
     \<exists>l. insert_all head as = Inr l \<and> records l = records head @ nodes"
proof (induction as arbitrary: head nodes)
  case Nil
  then show ?case by simp
next
  case (Cons a as)
  from Cons.prems obtain node ns where
    n: "make_node a = Inr node" "make_nodes as = Inr ns" "nodes = node # ns"
    by (auto split: sum.splits)
  from insert_Inr [OF n(1), of head] obtain l where
    l: "insert_from_appointment_dict head a = Inr l" "records l = records head @ [node]" by blast
  from Cons.IH [OF n(2), of l] obtain l' where
    "insert_all l as = Inr l'" "records l' = records l @ ns" by blast
  with l n(3) show ?case by simp
qed

text \<open>The engine reads a node's fields, never its \<open>next\<close> reference.\<close>

lemma item_of_node_detach [simp]: "item_of_node fiso (detach node) = item_of_node fiso node"
  by (cases node) (simp add: item_of_node_def)

lemma enrich_detach:
  "enrich fiso (detach node) = (case enrich fiso node of Inl e \<Rightarrow> Inl e | Inr x \<Rightarrow> Inr (detach_entry x))"
  by (cases node) (simp add: enrich_def Let_def detach_entry_def split: sum.splits)

lemma enrich_all_detach:
  "enrich_all fiso (map detach nodes) =
     (case enrich_all fiso nodes of Inl e \<Rightarrow> Inl e | Inr xs \<Rightarrow> Inr (map detach_entry xs))"
  by (induction nodes) (auto simp: enrich_detach split: sum.splits)

lemma key_of_detach [simp]: "key_of (detach_entry x) = key_of x"
  by (cases x) (simp add: key_of_def detach_entry_def)

lemma instant_key_detach [simp]: "instant_key (detach_entry x) = instant_key x"
  by (cases x) (simp add: instant_key_def detach_entry_def)

lemma output_record_detach [simp]: "output_record fiso (detach_entry x) = output_record fiso x"
  by (cases x) (simp add: output_record_def detach_entry_def node_of_def)

lemma insort_key_map:
  "(\<And>x. f (g x) = f x) \<Longrightarrow> insort_key f (g x) (map g ys) = map g (insort_key f x ys)"
  by (induction ys) auto

lemma sort_key_map:
  "(\<And>x. f (g x) = f x) \<Longrightarrow> sort_key f (map g xs) = map g (sort_key f xs)"
  by (induction xs) (auto simp: insort_key_map)

lemma all_comparable_detach [simp]: "all_comparable (map detach_entry xs) = all_comparable xs"
  by (simp add: all_comparable_iff)

section \<open>Loading the priority queue in sorted order\<close>

lemma pq_enqueue_length [simp]: "length (pq_enqueue pq x) = length pq"
  by (simp add: pq_enqueue_def Let_def)

lemma pq_enqueue_nth:
  "length pq = 4 \<Longrightarrow> r < 4 \<Longrightarrow>
     pq_enqueue pq x ! r = pq ! r @ (if item_rank x = r then [x] else [])"
  using item_rank_lt [of x]
  by (auto simp: pq_enqueue_def Let_def q_enqueue_def item_rank_def nth_list_update)

lemma foldl_enqueue_lanes:
  "length pq = 4 \<Longrightarrow>
     length (foldl pq_enqueue pq xs) = 4 \<and>
     (\<forall>r < 4. foldl pq_enqueue pq xs ! r = pq ! r @ filter (\<lambda>x. item_rank x = r) xs)"
proof (induction xs arbitrary: pq)
  case Nil
  then show ?case by simp
next
  case (Cons x xs)
  have l: "length (pq_enqueue pq x) = 4" using Cons.prems by simp
  from Cons.IH [OF l] show ?case
    using Cons.prems by (auto simp: pq_enqueue_nth)
qed

lemma four_lanes: "length pq = 4 \<Longrightarrow> pq = map (\<lambda>r. pq ! r) [0..<4]"
  by (metis map_nth)

lemma to_list_enqueued:
  "pq_to_list (foldl pq_enqueue PriorityQueue_init xs) =
     concat (map (\<lambda>r. filter (\<lambda>x. item_rank x = r) xs) [0..<4])"
proof -
  let ?pq = "foldl pq_enqueue PriorityQueue_init xs"
  have i: "length PriorityQueue_init = 4"
    by (simp add: PriorityQueue_init_def PRIORITY_ORDER_def)
  have e: "\<forall>r < 4. PriorityQueue_init ! r = []"
    by (simp add: PriorityQueue_init_def PRIORITY_ORDER_def nth_Cons')
  from foldl_enqueue_lanes [OF i, of xs] e have
    l: "length ?pq = 4" and n: "\<forall>r < 4. ?pq ! r = filter (\<lambda>x. item_rank x = r) xs" by auto
  have "?pq = map (\<lambda>r. ?pq ! r) [0..<4]" using l by (rule four_lanes)
  also have "\<dots> = map (\<lambda>r. filter (\<lambda>x. item_rank x = r) xs) [0..<4]"
    using n by (intro map_cong) auto
  finally show ?thesis by (simp only: pq_to_list_concat)
qed

lemma sorted_filter_split:
  "sorted (map f xs) \<Longrightarrow>
     filter (\<lambda>x. f x < n) xs @ filter (\<lambda>x. f x = n) xs = filter (\<lambda>x. f x < Suc n) xs"
proof (induction xs)
  case Nil
  then show ?case by simp
next
  case (Cons x xs)
  then have ih: "filter (\<lambda>x. f x < n) xs @ filter (\<lambda>x. f x = n) xs = filter (\<lambda>x. f x < Suc n) xs"
    and ge: "\<forall>y \<in> set xs. f x \<le> f y" by auto
  show ?case
  proof (cases "f x < n")
    case True
    with ih show ?thesis by simp
  next
    case False
    then have "\<forall>y \<in> set xs. \<not> f y < n" using ge by auto
    then have "filter (\<lambda>x. f x < n) xs = []" by (simp add: filter_empty_conv)
    with ih False show ?thesis by (auto simp: less_Suc_eq)
  qed
qed

lemma concat_buckets:
  "sorted (map f xs) \<Longrightarrow>
     concat (map (\<lambda>r. filter (\<lambda>x. f x = r) xs) [0..<n]) = filter (\<lambda>x. f x < n) xs"
  by (induction n) (simp_all add: sorted_filter_split)

lemma lanes_identity:
  "sorted (map item_rank xs) \<Longrightarrow> pq_to_list (foldl pq_enqueue PriorityQueue_init xs) = xs"
  using item_rank_lt by (simp add: to_list_enqueued concat_buckets)

lemma load_queue_eq:
  "load_queue fiso es = foldl pq_enqueue PriorityQueue_init (map (\<lambda>x. item_of_node fiso (node_of x)) es)"
proof -
  have "(\<lambda>pq x. case x of (r, d, c, node) \<Rightarrow> pq_enqueue pq (item_of_node fiso node)) =
        (\<lambda>pq x. pq_enqueue pq (item_of_node fiso (node_of x)))"
    by (auto simp: node_of_def fun_eq_iff)
  then show ?thesis by (simp add: load_queue_def foldl_map)
qed

lemma item_rank_item_of_node:
  "item_rank (item_of_node fiso node) = priority_rank (Some (PatientNode.priority node))"
proof -
  let ?q = "py_strip (py_lower (if PatientNode.priority node = [] then ''normal''
                                else PatientNode.priority node))"
  have "priority_rank (Some ?q) = rank_loop 0 PRIORITY_ORDER ?q"
    by (cases "?q = []") (simp_all add: priority_rank_def Let_def rank_loop_order)
  then show ?thesis
    by (simp add: item_rank_def item_of_node_def build_queue_item_def priority_rank_def Let_def)
qed

lemma enrich_fst:
  "enrich fiso node = Inr x \<Longrightarrow> fst x = item_rank (item_of_node fiso node) \<and> node_of x = node"
  unfolding enrich_def Let_def
  by (auto simp only: enrich_rank item_rank_item_of_node node_of_def fst_conv prod.case
        split: sum.splits)

lemma enrich_all_fst:
  "enrich_all fiso nodes = Inr es \<Longrightarrow>
     map fst es = map (\<lambda>x. item_rank (item_of_node fiso (node_of x))) es \<and> map node_of es = nodes"
proof (induction nodes arbitrary: es)
  case Nil
  then show ?case by simp
next
  case (Cons node nodes)
  from Cons.prems obtain x xs where
    x: "enrich fiso node = Inr x" "enrich_all fiso nodes = Inr xs" "es = x # xs"
    by (auto split: sum.splits)
  from enrich_fst [OF x(1)] Cons.IH [OF x(2)] x(3) show ?case by simp
qed

lemma instant_key_le_fst:
  fixes x y :: "nat \<times> datetime \<times> datetime \<times> 'a"
  shows "instant_key x \<le> instant_key y \<Longrightarrow> fst x \<le> fst y"
  by (cases x rule: prod_cases4; cases y rule: prod_cases4) (auto simp: instant_key_def)

lemma sorted_instant_key_fst:
  fixes xs :: "(nat \<times> datetime \<times> datetime \<times> 'a) list"
  shows "sorted (map instant_key xs) \<Longrightarrow> sorted (map fst xs)"
  by (induction xs) (auto dest: instant_key_le_fst)

section \<open>The engine and the stable sort\<close>

lemma records_empty [simp]: "records empty_list = []"
  by (simp add: records_def empty_list_def ll_to_list_def)

lemma load_sorted:
  assumes "enrich_all fiso nodes = Inr xs"
  shows "pq_to_list (load_queue fiso (sort_key instant_key xs)) =
           map (\<lambda>x. item_of_node fiso (node_of x)) (sort_key instant_key xs)"
proof -
  let ?ss = "sort_key instant_key xs"
  have "map fst xs = map (\<lambda>x. item_rank (item_of_node fiso (node_of x))) xs"
    using enrich_all_fst [OF assms] by simp
  then have "\<forall>x \<in> set ?ss. item_rank (item_of_node fiso (node_of x)) = fst x"
    by (auto simp: map_eq_conv)
  then have eq: "map (\<lambda>x. item_rank (item_of_node fiso (node_of x))) ?ss = map fst ?ss"
    by (intro map_cong) auto
  have "sorted (map fst ?ss)"
    by (rule sorted_instant_key_fst) simp
  then have "sorted (map (\<lambda>x. item_rank (item_of_node fiso (node_of x))) ?ss)"
    by (simp only: eq)
  then have "sorted (map item_rank (map (\<lambda>x. item_of_node fiso (node_of x)) ?ss))"
    by (simp add: comp_def)
  then show ?thesis
    unfolding load_queue_eq by (rule lanes_identity)
qed

lemma engine_unfold:
  "get_optimized_queue_list fiso s =
     (case enriched fiso s of
        Inl e \<Rightarrow> Inl e
      | Inr es \<Rightarrow>
          if all_comparable es
          then Inr (map (output_record fiso) (sort_key instant_key es))
          else Inl TypeError)"
proof (cases "make_nodes s")
  case (Inl e)
  then show ?thesis
    by (simp add: get_optimized_queue_list_def enriched_def insert_all_Inl)
next
  case (Inr ns)
  from insert_all_Inr [OF Inr, of empty_list] obtain l where
    l: "insert_all empty_list s = Inr l" "records l = ns" by auto
  let ?ms = "ll_to_list l"
  have ns: "ns = map detach ?ms" using l(2) by (simp add: records_def)
  show ?thesis
  proof (cases "enrich_all fiso ?ms")
    case (Inl e)
    then show ?thesis
      by (simp add: get_optimized_queue_list_def enriched_def Inr l(1) ns enrich_all_detach)
  next
    case xs: (Inr xs)
    have en: "enriched fiso s = Inr (map detach_entry xs)"
      by (simp add: enriched_def Inr ns enrich_all_detach xs)
    show ?thesis
    proof (cases "all_comparable xs")
      case False
      then show ?thesis
        by (simp add: get_optimized_queue_list_def l(1) xs en py_sort_eq)
    next
      case True
      have a: "map to_dict (pq_to_list (load_queue fiso (sort_key instant_key xs))) =
            map (output_record fiso) (sort_key instant_key xs)"
        by (simp add: load_sorted [OF xs] output_record_def comp_def)
      have b: "map (output_record fiso) (sort_key instant_key (map detach_entry xs)) =
            map (output_record fiso) (sort_key instant_key xs)"
        by (simp add: sort_key_map comp_def)
      have "map to_dict (pq_to_list (load_queue fiso (sort_key instant_key xs))) =
            map (output_record fiso) (sort_key instant_key (map detach_entry xs))"
        by (simp only: a b)
      with True show ?thesis
        by (simp add: get_optimized_queue_list_def l(1) xs en py_sort_eq)
    qed
  qed
qed

text \<open>
  Where the keys can all be compared, the engine returns the stable sort; and whatever
  the engine returns is the stable sort of the keyed records.  Ingesting into the linked
  list and traversing it gives the records back in order, and enqueueing the sorted
  sequence into the four lanes and flattening them gives it back in order.
\<close>

lemma comparable_run:
  "enriched fiso s = Inr es \<Longrightarrow> all_comparable es \<Longrightarrow>
     get_optimized_queue_list fiso s = Inr (stable_sort_schedule fiso es)"
  by (simp add: engine_unfold stable_sort_schedule_def)

lemma returned_is_stable_sort:
  assumes "get_optimized_queue_list fiso s = Inr out"
  shows "\<exists>es. enriched fiso s = Inr es \<and> all_comparable es \<and> out = stable_sort_schedule fiso es"
proof (cases "enriched fiso s")
  case (Inl e)
  with assms show ?thesis by (simp add: engine_unfold)
next
  case (Inr es)
  with assms show ?thesis
    by (simp add: engine_unfold stable_sort_schedule_def split: if_splits)
qed

lemma not_comparable_raises:
  "enriched fiso s = Inr es \<Longrightarrow> \<not> all_comparable es \<Longrightarrow>
     get_optimized_queue_list fiso s = Inl TypeError"
  by (simp add: engine_unfold)

section \<open>Evaluation at the concrete inputs\<close>

lemma digit_chars:
  "digit_char 0 = CHR ''0''" "digit_char 1 = CHR ''1''" "digit_char (Suc 0) = CHR ''1''"
  "digit_char 2 = CHR ''2''" "digit_char 3 = CHR ''3''" "digit_char 4 = CHR ''4''"
  "digit_char 5 = CHR ''5''" "digit_char 6 = CHR ''6''" "digit_char 7 = CHR ''7''"
  "digit_char 8 = CHR ''8''" "digit_char 9 = CHR ''9''"
  by code_simp+

lemma replicate_numerals:
  "replicate 2 c = [c, c]" "replicate 3 c = [c, c, c]" "replicate 4 c = [c, c, c, c]"
  "replicate 5 c = [c, c, c, c, c]"
  by (simp_all add: eval_nat_numeral)

lemmas isoformat_eval =
  format_local_def format_offset_def ord2ymd_def US_PER_DAY_def DAYS_BEFORE_MONTH_def
  DAYS_IN_MONTH_def pad_def show_nat.simps digit_chars replicate_numerals Let_def

lemma parsed_literals:
  "parse_created_at iso_forms (VStr ''2025-01-30T08:00:00.123456+00:00'') = Aware 63873820800123456 0"
  "parse_created_at iso_forms (VStr ''2025-01-30T08:01:00.123456+00:00'') = Aware 63873820860123456 0"
  "parse_created_at iso_forms (VStr ''2025-01-30T08:02:00.123456+00:00'') = Aware 63873820920123456 0"
  "parse_created_at iso_forms (VStr ''2025-01-30T08:05:00.123456+00:00'') = Aware 63873821100123456 0"
  by code_simp+

lemma formatted_literals:
  "isoformat (Aware 63873820800123456 0) = ''2025-01-30T08:00:00.123456+00:00''"
  "isoformat (Aware 63873820860123456 0) = ''2025-01-30T08:01:00.123456+00:00''"
  "isoformat (Aware 63873820920123456 0) = ''2025-01-30T08:02:00.123456+00:00''"
  "isoformat (Aware 63873821100123456 0) = ''2025-01-30T08:05:00.123456+00:00''"
  by (simp_all add: isoformat_eval)

lemma min_literal: "isoformat datetime_min = ''0001-01-01T00:00:00''"
  by (simp add: datetime_min_def isoformat_eval)

lemma output_record_entry:
  "output_record fiso (entry r due cr i n p d t c) =
     out_row i n (py_strip (py_lower (if p = [] then ''normal'' else p))) d t
       (isoformat (parse_created_at fiso (VStr c)))"
  by (simp add: output_record_def entry_def node_of_def item_of_node_def build_queue_item_def
        to_dict_def out_row_def py_or_def)

lemma enriched_example: "enriched iso_forms example_snapshot = Inr example_entries"
  by code_simp

lemma enriched_ordered: "enriched iso_forms ordered_snapshot = Inr sorted_entries"
  by code_simp

lemma enriched_mixed: "enriched iso_forms mixed_snapshot = Inr mixed_entries"
  by code_simp

lemma enriched_blank: "enriched iso_forms blank_snapshot = Inr blank_entries"
  by code_simp

lemma enriched_output: "enriched iso_forms example_output = Inl KeyError"
  by code_simp

lemma example_comparable: "all_comparable example_entries"
  by (simp add: example_entries_def all_comparable_def entry_def key_of_def comparable_iff)

lemma sorted_comparable: "all_comparable sorted_entries"
  by (simp add: sorted_entries_def all_comparable_def entry_def key_of_def comparable_iff)

lemma blank_comparable: "all_comparable blank_entries"
  by (simp add: blank_entries_def all_comparable_def entry_def key_of_def comparable_iff)

lemma mixed_not_comparable: "\<not> all_comparable mixed_entries"
  by (simp add: mixed_entries_def all_comparable_def entry_def key_of_def comparable_iff)

lemma example_sorted: "sort_key instant_key example_entries = sorted_entries"
  by (simp add: example_entries_def sorted_entries_def entry_def instant_key_def)

lemma sorted_sorted: "sort_key instant_key sorted_entries = sorted_entries"
  by (simp add: sorted_entries_def entry_def instant_key_def)

lemma blank_sorted: "sort_key instant_key blank_entries = blank_entries"
  by (simp add: blank_entries_def)

lemma sorted_records: "map (output_record iso_forms) sorted_entries = example_output"
  unfolding sorted_entries_def example_output_def list.map output_record_entry
    parsed_literals formatted_literals
  by simp

lemma blank_records: "map (output_record iso_forms) blank_entries = blank_output"
  unfolding blank_entries_def blank_output_def list.map output_record_entry
  using min_literal by (simp add: datetime_min_def)

lemma mixed_sorted:
  "sort_key instant_key mixed_entries =
     [entry 3 (Aware 63873821100123456 0) (Aware 63873821100123456 0)
        2 ''Bina'' ''normal'' ''01/02/2025'' ''09:00'' ''2025-01-30T08:05:00.123456+00:00'',
      entry 3 (Naive 63873997200000000) (Aware 63873820800123456 0)
        1 ''Abel'' ''normal'' ''2025-02-01'' ''09:00'' ''2025-01-30T08:00:00.123456+00:00'']"
  by (simp add: mixed_entries_def entry_def instant_key_def)

lemma mixed_records:
  "map (output_record iso_forms)
     [entry 3 (Aware 63873821100123456 0) (Aware 63873821100123456 0)
        2 ''Bina'' ''normal'' ''01/02/2025'' ''09:00'' ''2025-01-30T08:05:00.123456+00:00'',
      entry 3 (Naive 63873997200000000) (Aware 63873820800123456 0)
        1 ''Abel'' ''normal'' ''2025-02-01'' ''09:00'' ''2025-01-30T08:00:00.123456+00:00''] =
   mixed_output"
  unfolding mixed_output_def list.map output_record_entry parsed_literals formatted_literals
  by simp

lemma example_run: "get_optimized_queue_list iso_forms example_snapshot = Inr example_output"
  by (simp only: engine_unfold enriched_example sum.case example_comparable if_True
        example_sorted sorted_records)

lemma ordered_run: "get_optimized_queue_list iso_forms ordered_snapshot = Inr example_output"
  by (simp only: engine_unfold enriched_ordered sum.case sorted_comparable if_True
        sorted_sorted sorted_records)

lemma blank_run: "get_optimized_queue_list iso_forms blank_snapshot = Inr blank_output"
  by (simp only: engine_unfold enriched_blank sum.case blank_comparable if_True
        blank_sorted blank_records)

lemma output_run: "get_optimized_queue_list iso_forms example_output = Inl KeyError"
  by (simp only: engine_unfold enriched_output sum.case)

text \<open>
  Claim C3.  The claim asks for an output as long as the input, with every identifier
  once.  On \<open>mixed_snapshot\<close>, two rows with distinct identifiers, the engine returns
  no output: the date of the second row does not parse, its due time falls back to the
  offset-aware creation time, and the sort compares it with the offset-naive due time
  of the first row, which raises \<open>TypeError\<close>.
\<close>

theorem mixed_awareness_raises:
  "distinct (map (\<lambda>a. a ''id'') mixed_snapshot) \<and>
   get_optimized_queue_list iso_forms mixed_snapshot = Inl TypeError"
proof -
  have "distinct (map (\<lambda>a. a ''id'') mixed_snapshot)"
    by (simp add: mixed_snapshot_def row_def)
  moreover have "get_optimized_queue_list iso_forms mixed_snapshot = Inl TypeError"
    by (simp add: engine_unfold enriched_mixed mixed_not_comparable)
  ultimately show ?thesis by simp
qed

text \<open>
  Claim C7.  The claim asks, for every snapshot, that the engine's output be the output
  records of the snapshot stably sorted by rank, due time and creation time.  On
  \<open>mixed_snapshot\<close> that stable sort exists: the keyed records are \<open>mixed_entries\<close>,
  and sorted they give \<open>mixed_output\<close>, the second row before the first.  The engine
  returns no output there: it raises \<open>TypeError\<close>.
\<close>

theorem pipeline_raises_where_sort_exists:
  "enriched iso_forms mixed_snapshot = Inr mixed_entries \<and>
   stable_sort_schedule iso_forms mixed_entries = mixed_output \<and>
   get_optimized_queue_list iso_forms mixed_snapshot = Inl TypeError \<and>
   get_optimized_queue_list iso_forms mixed_snapshot \<noteq>
     Inr (stable_sort_schedule iso_forms mixed_entries)"
proof -
  have a: "stable_sort_schedule iso_forms mixed_entries = mixed_output"
    by (simp only: stable_sort_schedule_def mixed_sorted mixed_records)
  have b: "get_optimized_queue_list iso_forms mixed_snapshot = Inl TypeError"
    using enriched_mixed mixed_not_comparable by (rule not_comparable_raises)
  from a b enriched_mixed show ?thesis by simp
qed

section \<open>The serving order of the output\<close>

lemma engine_Inr:
  assumes "get_optimized_queue_list fiso s = Inr out"
  shows "\<exists>es. enriched fiso s = Inr es \<and> all_comparable es \<and>
              out = map (output_record fiso) (sort_key instant_key es)"
  using assms unfolding engine_unfold
  by (auto split: sum.splits if_splits)

lemma lex3_le_iff:
  "((r1::nat, i1::int, j1::int) \<le> (r2, i2, j2)) =
     (r1 < r2 \<or> r1 = r2 \<and> (i1 < i2 \<or> i1 = i2 \<and> j1 \<le> j2))"
  by auto

lemma pair_order:
  assumes "comparable (key_of y) (key_of x)" "instant_key x \<le> instant_key y"
  shows "key_lt (key_of y) (key_of x) = Inr False \<and>
         entry_rank x \<le> entry_rank y \<and>
         (entry_rank x = entry_rank y \<longrightarrow>
            instant (entry_due x) \<le> instant (entry_due y) \<and>
            (instant (entry_due x) = instant (entry_due y) \<longrightarrow>
               instant (entry_created x) \<le> instant (entry_created y)))"
proof -
  obtain r1 d1 c1 n1 where x: "x = (r1, d1, c1, n1)" by (cases x rule: prod_cases4)
  obtain r2 d2 c2 n2 where y: "y = (r2, d2, c2, n2)" by (cases y rule: prod_cases4)
  from assms(1) obtain b where b: "key_lt (key_of y) (key_of x) = Inr b"
    by (auto simp: comparable_def split: sum.splits)
  from key_lt_instant [OF b] assms(2) have "b = False" by auto
  with b have 1: "key_lt (key_of y) (key_of x) = Inr False" by simp
  have "(r1, instant d1, instant c1) \<le> (r2, instant d2, instant c2)"
    using assms(2) by (simp add: x y instant_key_def)
  then have 2: "r1 < r2 \<or> r1 = r2 \<and> (instant d1 < instant d2 \<or> instant d1 = instant d2 \<and> instant c1 \<le> instant c2)"
    by (simp only: lex3_le_iff)
  from 1 2 show ?thesis
    by (auto simp: x y entry_rank_def entry_due_def entry_created_def)
qed

lemma enriched_priority:
  assumes "enriched fiso s = Inr es" "x \<in> set es"
  shows "output_record fiso x ''priority'' =
           Some (VStr (QueueItem.priority (item_of_node fiso (node_of x)))) \<and>
         priority_rank (Some (QueueItem.priority (item_of_node fiso (node_of x)))) = entry_rank x"
proof -
  from assms(1) obtain nodes where "enrich_all fiso nodes = Inr es"
    by (auto simp: enriched_def split: sum.splits)
  from enrich_all_fst [OF this] have
    "map fst es = map (\<lambda>x. item_rank (item_of_node fiso (node_of x))) es" by simp
  with assms(2) have "fst x = item_rank (item_of_node fiso (node_of x))"
    by (auto simp: map_eq_conv)
  moreover have "entry_rank x = fst x"
    by (cases x rule: prod_cases4) (simp add: entry_rank_def)
  ultimately show ?thesis
    by (simp add: item_rank_def output_record_def to_dict_def)
qed

text \<open>
  Claim C1.  Whenever the engine returns, its output is the output records of the keyed
  records of the snapshot in an order \<open>ss\<close> that is sorted: for each adjacent pair the
  later key is not less than the earlier under the comparison of the sort, the rank
  does not decrease, at equal ranks the due time does not decrease, and at equal due
  times the creation time does not decrease.  Records with the same key keep the order
  they have in the snapshot.  The rank is the rank of the priority the output record
  shows.
\<close>

theorem serving_order:
  assumes "get_optimized_queue_list fiso s = Inr out"
  shows "\<exists>es ss.
           enriched fiso s = Inr es \<and> mset ss = mset es \<and>
           out = map (output_record fiso) ss \<and>
           (\<forall>i. Suc i < length ss \<longrightarrow>
              key_lt (key_of (ss ! Suc i)) (key_of (ss ! i)) = Inr False \<and>
              entry_rank (ss ! i) \<le> entry_rank (ss ! Suc i) \<and>
              (entry_rank (ss ! i) = entry_rank (ss ! Suc i) \<longrightarrow>
                 instant (entry_due (ss ! i)) \<le> instant (entry_due (ss ! Suc i)) \<and>
                 (instant (entry_due (ss ! i)) = instant (entry_due (ss ! Suc i)) \<longrightarrow>
                    instant (entry_created (ss ! i)) \<le> instant (entry_created (ss ! Suc i))))) \<and>
           (\<forall>k. filter (\<lambda>x. instant_key x = k) ss = filter (\<lambda>x. instant_key x = k) es) \<and>
           (\<forall>x \<in> set ss. \<exists>p. output_record fiso x ''priority'' = Some (VStr p) \<and>
                                priority_rank (Some p) = entry_rank x)"
proof -
  from engine_Inr [OF assms] obtain es where
    es: "enriched fiso s = Inr es" "all_comparable es"
        "out = map (output_record fiso) (sort_key instant_key es)" by blast
  let ?ss = "sort_key instant_key es"
  have adj: "key_lt (key_of (?ss ! Suc i)) (key_of (?ss ! i)) = Inr False \<and>
              entry_rank (?ss ! i) \<le> entry_rank (?ss ! Suc i) \<and>
              (entry_rank (?ss ! i) = entry_rank (?ss ! Suc i) \<longrightarrow>
                 instant (entry_due (?ss ! i)) \<le> instant (entry_due (?ss ! Suc i)) \<and>
                 (instant (entry_due (?ss ! i)) = instant (entry_due (?ss ! Suc i)) \<longrightarrow>
                    instant (entry_created (?ss ! i)) \<le> instant (entry_created (?ss ! Suc i))))"
    if i: "Suc i < length ?ss" for i
  proof (rule pair_order)
    have "i < length ?ss" using i by simp
    then have "?ss ! i \<in> set ?ss" by (rule nth_mem)
    moreover have "?ss ! Suc i \<in> set ?ss" using i by (rule nth_mem)
    ultimately have "?ss ! i \<in> set es" "?ss ! Suc i \<in> set es"
      by (simp_all only: set_sort)
    then show "comparable (key_of (?ss ! Suc i)) (key_of (?ss ! i))"
      using es(2) by (simp add: all_comparable_iff)
    have "sorted (map instant_key ?ss)" by simp
    then have "map instant_key ?ss ! i \<le> map instant_key ?ss ! Suc i"
      using i by (intro sorted_nth_mono) simp_all
    then show "instant_key (?ss ! i) \<le> instant_key (?ss ! Suc i)"
      using i by simp
  qed
  have stab: "\<forall>k. filter (\<lambda>x. instant_key x = k) ?ss = filter (\<lambda>x. instant_key x = k) es"
    by (simp add: sort_key_stable)
  have pri: "\<forall>x \<in> set ?ss. \<exists>p. output_record fiso x ''priority'' = Some (VStr p) \<and>
                                priority_rank (Some p) = entry_rank x"
    using enriched_priority [OF es(1)] by auto
  have "mset ?ss = mset es" by simp
  with es(1,3) adj stab pri show ?thesis by blast
qed

theorem serving_order_witness:
  "get_optimized_queue_list iso_forms example_snapshot = Inr example_output \<and>
   (\<exists>es ss. enriched iso_forms example_snapshot = Inr es \<and> mset ss = mset es \<and>
      example_output = map (output_record iso_forms) ss \<and>
      (\<forall>k. filter (\<lambda>x. instant_key x = k) ss = filter (\<lambda>x. instant_key x = k) es))"
proof -
  have h: "get_optimized_queue_list iso_forms example_snapshot = Inr example_output"
    by (rule example_run)
  from serving_order [OF h] obtain es ss where
    "enriched iso_forms example_snapshot = Inr es" "mset ss = mset es"
    "example_output = map (output_record iso_forms) ss"
    "\<forall>k. filter (\<lambda>x. instant_key x = k) ss = filter (\<lambda>x. instant_key x = k) es"
    by blast
  with h show ?thesis by blast
qed

section \<open>A snapshot that is already in serving order\<close>

lemma sorted_wrt_all_pairs:
  assumes "sorted_wrt P xs" "\<And>x. Q x x" "\<And>x y. P x y \<Longrightarrow> Q x y \<and> Q y x"
  shows "\<forall>a \<in> set xs. \<forall>b \<in> set xs. Q a b"
  using assms(1)
proof (induction xs)
  case Nil
  then show ?case by simp
next
  case (Cons x xs)
  then show ?case using assms(2,3) by auto
qed

lemma in_serving_order_comparable: "in_serving_order es \<Longrightarrow> all_comparable es"
  unfolding in_serving_order_def all_comparable_iff
proof (rule sorted_wrt_all_pairs)
  show "comparable (key_of x) (key_of x)" for x :: "nat \<times> datetime \<times> datetime \<times> 'a"
    by (rule comparable_refl)
  show "comparable (key_of x) (key_of y) \<and> comparable (key_of y) (key_of x)"
    if "key_lt (key_of y) (key_of x) = Inr False" for x y :: "nat \<times> datetime \<times> datetime \<times> 'a"
  proof -
    have "comparable (key_of y) (key_of x)" using that by (simp add: comparable_def)
    then show ?thesis by (simp add: comparable_sym)
  qed
qed

lemma in_serving_order_sorted: "in_serving_order es \<Longrightarrow> sorted (map instant_key es)"
proof -
  assume "in_serving_order es"
  then have "sorted_wrt (\<lambda>x y. instant_key x \<le> instant_key y) es"
    unfolding in_serving_order_def
    by (rule sorted_wrt_mono_rel [rotated]) (auto dest: key_lt_instant)
  then show ?thesis by (simp add: sorted_map)
qed

text \<open>
  Claim C6, as amended.  When the keyed records of a snapshot are already in serving
  order, the engine returns their output records in the unchanged order.
\<close>

theorem presorted_unchanged:
  assumes "enriched fiso s = Inr es" "in_serving_order es"
  shows "get_optimized_queue_list fiso s = Inr (map (output_record fiso) es)"
  using assms
  by (simp add: engine_unfold in_serving_order_comparable in_serving_order_sorted
        sort_key_id_if_sorted)

lemma sorted_in_serving_order: "in_serving_order sorted_entries"
  by (simp add: in_serving_order_def sorted_entries_def entry_def key_of_def dt_eq_def dt_lt_def)

text \<open>The three rows registered in serving order come out in that order.\<close>

theorem presorted_unchanged_witness:
  "enriched iso_forms ordered_snapshot = Inr sorted_entries \<and>
   in_serving_order sorted_entries \<and>
   get_optimized_queue_list iso_forms ordered_snapshot =
     Inr (map (output_record iso_forms) sorted_entries)"
  using enriched_ordered sorted_in_serving_order
    presorted_unchanged [OF enriched_ordered sorted_in_serving_order]
  by simp

lemma output_differs: "example_output \<noteq> ordered_snapshot"
proof
  assume "example_output = ordered_snapshot"
  then have "hd example_output ''id'' = hd ordered_snapshot ''id''" by simp
  then show False by (simp add: example_output_def ordered_snapshot_def out_row_def row_def)
qed

text \<open>
  Claim C6 as stated fails: the output of \<open>ordered_snapshot\<close>, which is in serving
  order, is not \<open>ordered_snapshot\<close>, since an output record has the key
  \<open>appointment_id\<close> and no key \<open>id\<close>; and the engine applied to its own output raises
  \<open>KeyError\<close>.
\<close>

theorem presorted_output_differs:
  "enriched iso_forms ordered_snapshot = Inr sorted_entries \<and>
   in_serving_order sorted_entries \<and>
   get_optimized_queue_list iso_forms ordered_snapshot = Inr example_output \<and>
   example_output \<noteq> ordered_snapshot \<and>
   get_optimized_queue_list iso_forms example_output = Inl KeyError"
  using enriched_ordered sorted_in_serving_order ordered_run output_differs output_run
  by simp

section \<open>The fields of the output records\<close>

lemma out_priority_falsy: "\<not> truthy v \<Longrightarrow> out_priority v = ''normal''"
  by (cases v) (simp_all add: out_priority_def)

lemma make_node_fields:
  assumes "make_node a = Inr node"
  shows "out_fields (to_dict (item_of_node fiso node)) = expected_fields fiso a"
proof -
  from assms obtain i p where
    i: "a ''id'' = Some i"
    and p: "lower_strip (py_or (dict_get a ''priority'') (VStr ''normal'')) = Inr p"
    and n: "PatientNode.appointment_id node = i" "PatientNode.priority node = p"
           "PatientNode.created_at node = dict_get a ''created_at''"
    by (auto simp: make_node_def split: option.splits sum.splits)
  have "py_strip (py_lower (if p = [] then ''normal'' else p)) =
          out_priority (dict_get a ''priority'')"
  proof (cases "truthy (dict_get a ''priority'')")
    case False
    with p have "p = ''normal''" by (auto simp: py_or_def)
    with False show ?thesis by (simp add: out_priority_falsy)
  next
    case True
    with p obtain s where s: "dict_get a ''priority'' = VStr s" "p = py_strip (py_lower s)"
      by (cases "dict_get a ''priority''") (auto simp: py_or_def)
    then show ?thesis by (simp add: out_priority_def)
  qed
  with i n show ?thesis
    by (simp add: out_fields_def expected_fields_def to_dict_def item_of_node_def
          build_queue_item_def)
qed

lemma enriched_fields:
  "make_nodes s = Inr nodes \<Longrightarrow> enrich_all fiso nodes = Inr es \<Longrightarrow>
     map (\<lambda>x. out_fields (output_record fiso x)) es = map (expected_fields fiso) s"
proof (induction s arbitrary: nodes es)
  case Nil
  then show ?case by auto
next
  case (Cons a s)
  from Cons.prems(1) obtain node ns where
    n: "make_node a = Inr node" "make_nodes s = Inr ns" "nodes = node # ns"
    by (auto split: sum.splits)
  from Cons.prems(2) n(3) obtain x xs where
    x: "enrich fiso node = Inr x" "enrich_all fiso ns = Inr xs" "es = x # xs"
    by (auto split: sum.splits)
  have "node_of x = node" using enrich_fst [OF x(1)] by simp
  then have "out_fields (output_record fiso x) = expected_fields fiso a"
    using make_node_fields [OF n(1)] by (simp add: output_record_def)
  with Cons.IH [OF n(2) x(2)] x(3) show ?case by simp
qed

lemma urgent_literal: "out_priority (VStr ''URGENT!'') = ''urgent!''"
  by code_simp

lemma blank_literal: "out_priority (VStr ''   '') = ''normal''"
  by code_simp

text \<open>
  Claim C10, as amended.  Whenever the engine returns, the triples of identifier,
  priority and creation time that its output records show are, as a multiset, the
  triples expected of the input rows: the priority is the lower-cased, trimmed label, and \<open>normal\<close> when that
  is empty or the label is missing, so \<open>URGENT!\<close> shows as \<open>urgent!\<close> and a blank
  label as \<open>normal\<close>; the creation time is the ISO string of the parsed creation
  time, which is \<open>0001-01-01T00:00:00\<close> when the value is missing or does not parse.
\<close>

theorem output_fields:
  assumes "get_optimized_queue_list fiso s = Inr out"
  shows "mset (map out_fields out) = mset (map (expected_fields fiso) s) \<and>
         out_priority (VStr ''URGENT!'') = ''urgent!'' \<and>
         out_priority (VStr ''   '') = ''normal'' \<and>
         out_priority (VStr []) = ''normal'' \<and>
         out_priority VNone = ''normal'' \<and>
         parse_created_at fiso VNone = datetime_min \<and>
         (fiso c = None \<longrightarrow> parse_created_at fiso (VStr c) = datetime_min) \<and>
         isoformat datetime_min = ''0001-01-01T00:00:00''"
proof -
  from engine_Inr [OF assms] obtain es where
    es: "enriched fiso s = Inr es"
        "out = map (output_record fiso) (sort_key instant_key es)" by blast
  from es(1) obtain nodes where
    n: "make_nodes s = Inr nodes" "enrich_all fiso nodes = Inr es"
    by (auto simp: enriched_def split: sum.splits)
  have "mset (map out_fields out) =
          mset (map (\<lambda>x. out_fields (output_record fiso x)) (sort_key instant_key es))"
    by (simp add: es(2) comp_def)
  also have "\<dots> = mset (map (\<lambda>x. out_fields (output_record fiso x)) es)"
    by (simp only: mset_map mset_sort)
  also have "\<dots> = mset (map (expected_fields fiso) s)"
    by (simp only: enriched_fields [OF n])
  finally have 1: "mset (map out_fields out) = mset (map (expected_fields fiso) s)" .
  have 2: "out_priority (VStr []) = ''normal''" "out_priority VNone = ''normal''"
    by (simp_all add: out_priority_def)
  have 3: "fiso c = None \<longrightarrow> parse_created_at fiso (VStr c) = datetime_min"
    by simp
  from 1 2 3 urgent_literal blank_literal min_literal show ?thesis by simp
qed

theorem output_fields_witness:
  "get_optimized_queue_list iso_forms blank_snapshot = Inr blank_output \<and>
   mset (map out_fields blank_output) = mset (map (expected_fields iso_forms) blank_snapshot)"
  using blank_run output_fields [OF blank_run] by simp

text \<open>Whenever the engine returns, no record is lost and none is added.\<close>

lemma returned_output_complete:
  assumes "get_optimized_queue_list fiso s = Inr out"
  shows "length out = length s \<and>
         mset (map (\<lambda>d. d ''appointment_id'') out) = mset (map (\<lambda>a. a ''id'') s)"
proof -
  from engine_Inr [OF assms] obtain es where
    es: "enriched fiso s = Inr es"
        "out = map (output_record fiso) (sort_key instant_key es)" by blast
  from es(1) obtain nodes where
    n: "make_nodes s = Inr nodes" "enrich_all fiso nodes = Inr es"
    by (auto simp: enriched_def split: sum.splits)
  have e: "map (\<lambda>x. out_fields (output_record fiso x)) es = map (expected_fields fiso) s"
    by (rule enriched_fields [OF n])
  then have "length es = length s" by (metis length_map)
  then have 1: "length out = length s" by (simp add: es(2))
  have "map fst (map (\<lambda>x. out_fields (output_record fiso x)) es) =
          map fst (map (expected_fields fiso) s)"
    by (simp only: e)
  then have f: "map (\<lambda>x. output_record fiso x ''appointment_id'') es = map (\<lambda>a. a ''id'') s"
    by (simp add: comp_def out_fields_def expected_fields_def)
  have "mset (map (\<lambda>d. d ''appointment_id'') out) =
          mset (map (\<lambda>x. output_record fiso x ''appointment_id'') (sort_key instant_key es))"
    by (simp add: es(2) comp_def)
  also have "\<dots> = mset (map (\<lambda>x. output_record fiso x ''appointment_id'') es)"
    by (simp only: mset_map mset_sort)
  finally have 2: "mset (map (\<lambda>d. d ''appointment_id'') out) = mset (map (\<lambda>a. a ''id'') s)"
    by (simp only: f)
  from 1 2 show ?thesis by simp
qed

text \<open>
  Claim C10 as stated fails on a blank label: lower-cased and trimmed it is the empty
  string, and the output shows \<open>normal\<close>.
\<close>

theorem blank_label_becomes_normal:
  "get_optimized_queue_list iso_forms blank_snapshot = Inr blank_output \<and>
   hd blank_snapshot ''priority'' = Some (VStr ''   '') \<and>
   py_strip (py_lower ''   '') = [] \<and>
   hd blank_output ''priority'' = Some (VStr ''normal'')"
proof -
  have "py_strip (py_lower ''   '') = []" by code_simp
  with blank_run show ?thesis
    by (simp add: blank_snapshot_def blank_output_def row_def out_row_def)
qed

end
